theory Spec2Isabelle
  imports Main "HOL-Library.AList" "HOL-Library.Word"
begin

section \<open>Errors\<close>

text \<open>
  The Go code reports failure through \<^verbatim>\<open>error\<close> values built with \<^verbatim>\<open>errs.New\<close>,
  \<^verbatim>\<open>fmt.Errorf\<close> or handed up from \<^verbatim>\<open>database/sql\<close>, \<^verbatim>\<open>strconv\<close> and
  \<^verbatim>\<open>bufio\<close>. Each distinct failure of the modelled functions is one constructor; the
  message text is not modelled. A Go result \<^verbatim>\<open>(v, err)\<close> is a pair whose second
  component is \<open>None\<close> for \<^verbatim>\<open>nil\<close>.
\<close>

datatype error =
    SqlErrNoRows                \<comment> \<open>\<^verbatim>\<open>sql.ErrNoRows\<close>\<close>
  | SqlErrDBClosed              \<comment> \<open>\<^verbatim>\<open>sql: database is closed\<close>\<close>
  | SqlUniqueViolation          \<comment> \<open>insert of a primary key that is already there\<close>
  | SqlStatementError           \<comment> \<open>the engine's error for a statement it refuses\<close>
  | StrconvErrSyntax            \<comment> \<open>\<^verbatim>\<open>strconv.ErrSyntax\<close>\<close>
  | StrconvErrRange             \<comment> \<open>\<^verbatim>\<open>strconv.ErrRange\<close>\<close>
  | InvalidBooleanValue         \<comment> \<open>\<^verbatim>\<open>invalid boolean value %q\<close>\<close>
  | TeamAlreadyActive           \<comment> \<open>\<^verbatim>\<open>team %s is already active\<close>\<close>
  | InvalidTeamID               \<comment> \<open>\<^verbatim>\<open>invalid team ID\<close>\<close>
  | InvalidSetupData            \<comment> \<open>\<^verbatim>\<open>invalid setup data\<close>\<close>
  | CouldNotAddTeamDefinition   \<comment> \<open>\<^verbatim>\<open>could not add team definition: %v\<close>\<close>
  | InvalidTeamDefinitionLine   \<comment> \<open>\<^verbatim>\<open>invalid team definition line in %q\<close>\<close>
  | ReadingFromTeamFile         \<comment> \<open>\<^verbatim>\<open>reading from %q: %v\<close>, the scanner's error\<close>
  | OsErrNotExist               \<comment> \<open>\<^verbatim>\<open>os.Open\<close> on a file that is not there\<close>
  | CouldNotInitializeSlack     \<comment> \<open>\<^verbatim>\<open>could not initialize slack connection: %v\<close>\<close>
  | CouldNotParseDBSource       \<comment> \<open>\<^verbatim>\<open>could not parse %q: %v\<close>\<close>
  | CouldNotOpenDB              \<comment> \<open>\<^verbatim>\<open>could not open db: %v\<close>\<close>

section \<open>The persistent store (app/persistentdb.go, app/dbx/persistent.dbx)\<close>

subsection \<open>Tables\<close>

text \<open>
  An instant (\<^verbatim>\<open>time.Time\<close>) is its number of nanoseconds since the Unix epoch. A
  \<^verbatim>\<open>time.Duration\<close> is a signed 64-bit count of nanoseconds.
\<close>

type_synonym Time = int

text \<open>
  The four models of \<^verbatim>\<open>persistent.dbx\<close>. A table is the list of its rows in insertion
  order. \<^verbatim>\<open>gerrit_user\<close>, \<^verbatim>\<open>inline_comment\<close> and \<^verbatim>\<open>team_config\<close> declare a key;
  the engine refuses a second row with the same key, which the insert operations below
  check. \<^verbatim>\<open>patchset_announcement\<close> is keyed by the serial \<^verbatim>\<open>num\<close> only.
\<close>

record GerritUser =
  GerritUsername :: string
  ChatId :: string
  LastReport :: "Time option"

record InlineComment =
  CommentId :: string
  UpdatedAt :: Time

record TeamConfig =
  ConfigKey :: string
  ConfigValue :: string

record PatchsetAnnouncement =
  Num :: nat
  ProjectName :: string
  ChangeNum :: int
  PatchsetNum :: int
  MessageHandle :: string
  Ts :: Time

text \<open>
  \<^verbatim>\<open>dbx.DB\<close>: the tables, and whether \<^verbatim>\<open>Close\<close> has been called on the handle. Every
  statement on a closed handle fails; this is the one driver failure the model has, and
  it keeps each \<^verbatim>\<open>if err != nil\<close> branch of the source reachable.
\<close>

record DB =
  gerrit_users :: "GerritUser list"
  inline_comments :: "InlineComment list"
  team_configs :: "TeamConfig list"
  patchset_announcements :: "PatchsetAnnouncement list"
  closed :: bool

text \<open>\<^verbatim>\<open>PersistentDB\<close>: the handle and the username-to-chat-ID cache.\<close>

record PersistentDB =
  db :: DB
  cache :: "string \<rightharpoonup> string"

subsection \<open>Statements on \<^verbatim>\<open>team_configs\<close>\<close>

text \<open>
  \<^verbatim>\<open>read one (select team_config.config_value where team_config.config_key = ?)\<close>:
  the row, or \<^verbatim>\<open>sql.ErrNoRows\<close>.
\<close>

definition Get_TeamConfig_ConfigValue_By_ConfigKey :: "DB \<Rightarrow> string \<Rightarrow> error + TeamConfig" where
  "Get_TeamConfig_ConfigValue_By_ConfigKey d k =
     (if closed d then Inl SqlErrDBClosed
      else case find (\<lambda>r. ConfigKey r = k) (team_configs d) of
             None \<Rightarrow> Inl SqlErrNoRows
           | Some r \<Rightarrow> Inr r)"

text \<open>
  \<^verbatim>\<open>INSERT INTO team_configs (config_key, config_value) VALUES (?, ?)
  ON CONFLICT (config_key) DO UPDATE SET config_value = EXCLUDED.config_value\<close>
\<close>

fun upsertTeamConfig :: "string \<Rightarrow> string \<Rightarrow> TeamConfig list \<Rightarrow> TeamConfig list" where
  "upsertTeamConfig k v [] = [\<lparr>ConfigKey = k, ConfigValue = v\<rparr>]"
| "upsertTeamConfig k v (r # rs) =
     (if ConfigKey r = k then r\<lparr>ConfigValue := v\<rparr> # rs else r # upsertTeamConfig k v rs)"

subsection \<open>Config accessors\<close>

definition GetConfig :: "PersistentDB \<Rightarrow> string \<Rightarrow> string \<Rightarrow> string \<times> error option" where
  "GetConfig ud key defaultValue =
     (case Get_TeamConfig_ConfigValue_By_ConfigKey (db ud) key of
        Inl err \<Rightarrow> (defaultValue, if err = SqlErrNoRows then None else Some err)
      | Inr v \<Rightarrow> (ConfigValue v, None))"

definition SetConfig :: "PersistentDB \<Rightarrow> string \<Rightarrow> string \<Rightarrow> error option \<times> PersistentDB" where
  "SetConfig ud key v =
     (if closed (db ud) then (Some SqlErrDBClosed, ud)
      else (None, ud\<lparr>db := (db ud)\<lparr>team_configs := upsertTeamConfig key v (team_configs (db ud))\<rparr>\<rparr>))"

text \<open>
  \<^verbatim>\<open>strings.ToLower\<close> on the bytes of the string: an ASCII capital becomes its small
  letter, every other byte stays. (Go also lowers capitals beyond ASCII; the only ones
  whose small letter is ASCII are the Kelvin sign and the dotted capital I, giving
  \<^verbatim>\<open>k\<close> and \<^verbatim>\<open>i\<close>, and no boolean token has either letter, so on which branch of
  \<^verbatim>\<open>GetConfigBool\<close> a value ends is the same.)
\<close>

definition toLowerByte :: "char \<Rightarrow> char" where
  "toLowerByte c =
     (case map_of (zip ''ABCDEFGHIJKLMNOPQRSTUVWXYZ'' ''abcdefghijklmnopqrstuvwxyz'') c of
        None \<Rightarrow> c
      | Some l \<Rightarrow> l)"

definition ToLower :: "string \<Rightarrow> string" where
  "ToLower s = map toLowerByte s"

definition GetConfigBool :: "PersistentDB \<Rightarrow> string \<Rightarrow> bool \<Rightarrow> bool \<times> error option" where
  "GetConfigBool ud key defaultValue =
     (case GetConfig ud key [] of (val, err) \<Rightarrow>
        if err \<noteq> None \<or> val = [] then (defaultValue, err)
        else let val = ToLower val in
          if List.member [''yes'', ''y'', ''1'', ''on'', ''true'', ''t''] val then (True, None)
          else if List.member [''no'', ''n'', ''0'', ''off'', ''false'', ''f''] val then (False, None)
          else (defaultValue, Some InvalidBooleanValue))"

text \<open>What a table holds for a key: the value of the first row with that key.\<close>

definition storedConfig :: "PersistentDB \<Rightarrow> string \<Rightarrow> string option" where
  "storedConfig ud key =
     map_option ConfigValue (find (\<lambda>r. ConfigKey r = key) (team_configs (db ud)))"

subsection \<open>Integers in the config table (\<^verbatim>\<open>strconv\<close>)\<close>

text \<open>
  \<^verbatim>\<open>strconv.FormatInt(i, 32)\<close>: the digits of the magnitude in base 32, most
  significant first, from \<^verbatim>\<open>0123456789abcdefghijklmnopqrstuvwxyz\<close>, after a
  \<^verbatim>\<open>-\<close> when \<open>i\<close> is negative. The loop of \<^verbatim>\<open>formatBits\<close> for a base that is a power
  of two writes the digit of \<^verbatim>\<open>u & 31\<close> and shifts \<open>u\<close> right by five bits while
  \<open>u \<ge> 32\<close>, then writes the last digit.
\<close>

definition digits :: string where
  "digits = ''0123456789abcdefghijklmnopqrstuvwxyz''"

function formatBits32 :: "nat \<Rightarrow> string" where
  "formatBits32 u = (if 32 \<le> u then formatBits32 (u div 32) @ [digits ! (u mod 32)]
                     else [digits ! u])"
  by pat_completeness auto
termination
  by (relation "measure (\<lambda>u. u)") auto

declare formatBits32.simps [simp del]

definition FormatInt32 :: "int \<Rightarrow> string" where
  "FormatInt32 i = (if i < 0 then CHR ''-'' # formatBits32 (nat (- i)) else formatBits32 (nat i))"

text \<open>
  \<^verbatim>\<open>strconv.ParseInt(s, base, bitSize)\<close> with its helpers. \<^verbatim>\<open>lower(c)\<close> is
  \<^verbatim>\<open>c | ('x' - 'X')\<close>: bit 5 of the byte is set.
\<close>

definition lower :: "char \<Rightarrow> char" where
  "lower c = (case c of Char b0 b1 b2 b3 b4 b5 b6 b7 \<Rightarrow> Char b0 b1 b2 b3 b4 True b6 b7)"

definition byte :: "char \<Rightarrow> int" where
  "byte c = of_char c"

text \<open>
  The digit loop of \<^verbatim>\<open>ParseUint\<close>: \<open>n\<close> is the value so far, \<open>seen\<close> whether an
  underscore was skipped. It stops at the first byte that is no digit of the base
  (syntax error) or that takes the value past \<open>maxVal\<close> (range error).
\<close>

fun parseDigits :: "bool \<Rightarrow> int \<Rightarrow> int \<Rightarrow> int \<Rightarrow> int \<Rightarrow> bool \<Rightarrow> string \<Rightarrow> error + (int \<times> bool)" where
  "parseDigits base0 base cutoff maxVal n seen [] = Inr (n, seen)"
| "parseDigits base0 base cutoff maxVal n seen (c # cs) =
     (if c = CHR ''_'' \<and> base0 then parseDigits base0 base cutoff maxVal n True cs
      else if \<not> (byte CHR ''0'' \<le> byte c \<and> byte c \<le> byte CHR ''9'')
              \<and> \<not> (byte CHR ''a'' \<le> byte (lower c) \<and> byte (lower c) \<le> byte CHR ''z'')
        then Inl StrconvErrSyntax
      else let d = (if byte CHR ''0'' \<le> byte c \<and> byte c \<le> byte CHR ''9''
                    then byte c - byte CHR ''0''
                    else byte (lower c) - byte CHR ''a'' + 10)
           in if base \<le> d then Inl StrconvErrSyntax
              else if cutoff \<le> n then Inl StrconvErrRange
              else if maxVal < n * base + d then Inl StrconvErrRange
              else parseDigits base0 base cutoff maxVal (n * base + d) seen cs)"

text \<open>
  \<^verbatim>\<open>underscoreOK\<close>: underscores may stand only between digits, or between the base
  prefix and a digit. \<open>saw\<close> is the last thing seen.
\<close>

datatype saw = SawStart | SawDigit | SawUnderscore | SawOther

fun underscoreLoop :: "bool \<Rightarrow> saw \<Rightarrow> string \<Rightarrow> bool" where
  "underscoreLoop hex saw [] = (saw \<noteq> SawUnderscore)"
| "underscoreLoop hex saw (c # cs) =
     (if (byte CHR ''0'' \<le> byte c \<and> byte c \<le> byte CHR ''9'')
         \<or> (hex \<and> byte CHR ''a'' \<le> byte (lower c) \<and> byte (lower c) \<le> byte CHR ''f'')
        then underscoreLoop hex SawDigit cs
      else if c = CHR ''_''
        then (if saw \<noteq> SawDigit then False else underscoreLoop hex SawUnderscore cs)
      else if saw = SawUnderscore then False
      else underscoreLoop hex SawOther cs)"

definition underscoreOK :: "string \<Rightarrow> bool" where
  "underscoreOK s0 =
     (let s = (case s0 of c # cs \<Rightarrow> if c = CHR ''-'' \<or> c = CHR ''+'' then cs else s0 | [] \<Rightarrow> s0)
      in case s of
           c0 # c1 # cs \<Rightarrow>
             if c0 = CHR ''0'' \<and> (lower c1 = CHR ''b'' \<or> lower c1 = CHR ''o'' \<or> lower c1 = CHR ''x'')
             then underscoreLoop (lower c1 = CHR ''x'') SawDigit cs
             else underscoreLoop False SawStart s
         | _ \<Rightarrow> underscoreLoop False SawStart s)"

text \<open>
  \<^verbatim>\<open>ParseUint\<close>. The result with a range error is \<open>maxVal\<close>, which \<^verbatim>\<open>ParseInt\<close>
  reads; with a syntax error it is 0. Base 0 reads the base off the prefix: \<^verbatim>\<open>0b\<close>,
  \<^verbatim>\<open>0o\<close>, \<^verbatim>\<open>0x\<close> (each needs a third byte), a bare leading \<^verbatim>\<open>0\<close> for octal,
  base 10 otherwise.
\<close>

definition ParseUint :: "string \<Rightarrow> int \<Rightarrow> nat \<Rightarrow> int \<times> error option" where
  "ParseUint s0 base bitSize =
     (if s0 = [] then (0, Some StrconvErrSyntax)
      else if \<not> (2 \<le> base \<and> base \<le> 36) \<and> base \<noteq> 0 then (0, Some StrconvErrSyntax)
      else
        let base0 = (base = 0);
            (base', s) =
              (if \<not> base0 then (base, s0)
               else if hd s0 = CHR ''0'' then
                 (if 3 \<le> length s0 \<and> lower (s0 ! 1) = CHR ''b'' then (2, drop 2 s0)
                  else if 3 \<le> length s0 \<and> lower (s0 ! 1) = CHR ''o'' then (8, drop 2 s0)
                  else if 3 \<le> length s0 \<and> lower (s0 ! 1) = CHR ''x'' then (16, drop 2 s0)
                  else (8, drop 1 s0))
               else (10, s0));
            bitSize' = (if bitSize = 0 then 64 else bitSize);
            cutoff = (2 ^ 64 - 1) div base' + 1;
            maxVal = 2 ^ bitSize' - 1
        in case parseDigits base0 base' cutoff maxVal 0 False s of
             Inl StrconvErrRange \<Rightarrow> (maxVal, Some StrconvErrRange)
           | Inl e \<Rightarrow> (0, Some e)
           | Inr (n, underscores) \<Rightarrow>
               if underscores \<and> \<not> underscoreOK s0 then (0, Some StrconvErrSyntax)
               else (n, None))"

definition ParseInt :: "string \<Rightarrow> int \<Rightarrow> nat \<Rightarrow> int \<times> error option" where
  "ParseInt s0 base bitSize =
     (if s0 = [] then (0, Some StrconvErrSyntax)
      else
        let neg = (hd s0 = CHR ''-'');
            s = (if hd s0 = CHR ''+'' \<or> hd s0 = CHR ''-'' then tl s0 else s0)
        in case ParseUint s base bitSize of (un, err) \<Rightarrow>
             if err \<noteq> None \<and> err \<noteq> Some StrconvErrRange then (0, err)
             else
               let bitSize' = (if bitSize = 0 then 64 else bitSize);
                   cutoff = (2::int) ^ (bitSize' - 1)
               in if \<not> neg \<and> cutoff \<le> un then (cutoff - 1, Some StrconvErrRange)
                  else if neg \<and> cutoff < un then (- cutoff, Some StrconvErrRange)
                  else (if neg then - un else un, None))"

definition GetConfigInt :: "PersistentDB \<Rightarrow> string \<Rightarrow> int \<Rightarrow> int \<times> error option" where
  "GetConfigInt ud key defaultValue =
     (case GetConfig ud key [] of (val, err) \<Rightarrow>
        if err \<noteq> None \<or> val = [] then (defaultValue, err)
        else case ParseInt val 0 32 of (numVal, err) \<Rightarrow>
          if err \<noteq> None then (defaultValue, err) else (numVal, None))"

definition SetConfigInt :: "PersistentDB \<Rightarrow> string \<Rightarrow> int \<Rightarrow> error option \<times> PersistentDB" where
  "SetConfigInt ud key v = SetConfig ud key (FormatInt32 v)"

subsection \<open>The user mapping and its cache\<close>

text \<open>
  \<^verbatim>\<open>read one (select gerrit_user where gerrit_user.gerrit_username = ?)\<close>
\<close>

definition Get_GerritUser_By_GerritUsername :: "DB \<Rightarrow> string \<Rightarrow> error + GerritUser" where
  "Get_GerritUser_By_GerritUsername d u =
     (if closed d then Inl SqlErrDBClosed
      else case find (\<lambda>r. GerritUsername r = u) (gerrit_users d) of
             None \<Rightarrow> Inl SqlErrNoRows
           | Some r \<Rightarrow> Inr r)"

text \<open>
  \<^verbatim>\<open>create gerrit_user ( noreturn )\<close>: a plain \<^verbatim>\<open>INSERT\<close>. The model declares
  \<^verbatim>\<open>key gerrit_username\<close>, so the insert of a username that has a row fails, and
  \<^verbatim>\<open>chat_id\<close> is not declared \<^verbatim>\<open>updatable\<close>. \<^verbatim>\<open>GerritUser_Create_Fields{}\<close> leaves
  \<^verbatim>\<open>last_report\<close> null.
\<close>

definition CreateNoReturn_GerritUser :: "DB \<Rightarrow> string \<Rightarrow> string \<Rightarrow> error + DB" where
  "CreateNoReturn_GerritUser d u c =
     (if closed d then Inl SqlErrDBClosed
      else if find (\<lambda>r. GerritUsername r = u) (gerrit_users d) \<noteq> None then Inl SqlUniqueViolation
      else Inr (d\<lparr>gerrit_users :=
                   gerrit_users d @ [\<lparr>GerritUsername = u, ChatId = c, LastReport = None\<rparr>]\<rparr>))"

definition LookupGerritUser :: "PersistentDB \<Rightarrow> string \<Rightarrow> error + GerritUser" where
  "LookupGerritUser ud gerritUsername = Get_GerritUser_By_GerritUsername (db ud) gerritUsername"

text \<open>
  \<^verbatim>\<open>LookupChatIDForGerritUser\<close> returns \<^verbatim>\<open>(chatID, err)\<close> and may fill the cache, so
  the model returns the store as well.
\<close>

definition LookupChatIDForGerritUser ::
  "PersistentDB \<Rightarrow> string \<Rightarrow> (string \<times> error option) \<times> PersistentDB" where
  "LookupChatIDForGerritUser ud gerritUsername =
     (case cache ud gerritUsername of
        Some chatID \<Rightarrow> ((chatID, None), ud)
      | None \<Rightarrow>
          (case LookupGerritUser ud gerritUsername of
             Inl err \<Rightarrow> (([], Some err), ud)
           | Inr usermapRecord \<Rightarrow>
               ((ChatId usermapRecord, None),
                ud\<lparr>cache := (cache ud)(gerritUsername \<mapsto> ChatId usermapRecord)\<rparr>)))"

definition AssociateChatIDWithGerritUser ::
  "PersistentDB \<Rightarrow> string \<Rightarrow> string \<Rightarrow> error option \<times> PersistentDB" where
  "AssociateChatIDWithGerritUser ud gerritUsername chatID =
     (case CreateNoReturn_GerritUser (db ud) gerritUsername chatID of
        Inl err \<Rightarrow> (Some err, ud)
      | Inr d \<Rightarrow> (None, ud\<lparr>db := d, cache := (cache ud)(gerritUsername \<mapsto> chatID)\<rparr>))"

text \<open>
  A sequence of \<^verbatim>\<open>AssociateChatIDWithGerritUser\<close> calls, each on the store the one
  before left; a call that fails leaves the store as it was and the next call goes on.
\<close>

fun associateAll :: "PersistentDB \<Rightarrow> (string \<times> string) list \<Rightarrow> PersistentDB" where
  "associateAll ud [] = ud"
| "associateAll ud ((u, c) # calls) =
     associateAll (snd (AssociateChatIDWithGerritUser ud u c)) calls"

text \<open>The chat ID the table holds for a username.\<close>

definition storedChatID :: "PersistentDB \<Rightarrow> string \<Rightarrow> string option" where
  "storedChatID ud u =
     map_option ChatId (find (\<lambda>r. GerritUsername r = u) (gerrit_users (db ud)))"

text \<open>The cache agrees with the table: whatever it holds for a user is that user's row.\<close>

definition cacheAgrees :: "PersistentDB \<Rightarrow> bool" where
  "cacheAgrees ud = (\<forall>u c. cache ud u = Some c \<longrightarrow> storedChatID ud u = Some c)"

subsection \<open>Inline comments\<close>

text \<open>
  \<^verbatim>\<open>INSERT INTO inline_comments (comment_id, updated_at) VALUES (?, ?)
  ON CONFLICT (comment_id) DO UPDATE SET updated_at = EXCLUDED.updated_at\<close>, one row.
\<close>

fun upsertInlineComment :: "string \<times> Time \<Rightarrow> InlineComment list \<Rightarrow> InlineComment list" where
  "upsertInlineComment (k, t) [] = [\<lparr>CommentId = k, UpdatedAt = t\<rparr>]"
| "upsertInlineComment (k, t) (r # rs) =
     (if CommentId r = k then r\<lparr>UpdatedAt := t\<rparr> # rs else r # upsertInlineComment (k, t) rs)"

text \<open>
  The statements \<^verbatim>\<open>IdentifyNewInlineComments\<close> and \<^verbatim>\<open>Prune\<close> send to the engine, with
  their arguments: the \<^verbatim>\<open>SELECT\<close> with one \<^verbatim>\<open>comment_id = ?\<close> per id joined by
  \<^verbatim>\<open>OR\<close>, the multi-row \<^verbatim>\<open>INSERT\<close>, and the two \<^verbatim>\<open>DELETE\<close>s with their cut-off.
\<close>

datatype Statement =
    SelectInlineComments "string list"
  | InsertInlineComments "(string \<times> Time) list"
  | DeleteInlineCommentsBefore Time
  | DeletePatchsetAnnouncementsBefore Time

text \<open>
  What the database engine behind the handle decides. \<open>refuses\<close> tells which statements
  it answers with an error: SQLite, the default backend, refuses the \<^verbatim>\<open>SELECT\<close> once it
  has about a thousand alternatives (its expression tree is too deep), and any engine
  may refuse a statement whose context has run out. \<open>timestampLess\<close> is how it decides
  \<^verbatim>\<open>column < ?\<close> between a stored timestamp and a parameter: SQLite compares the text
  the driver stored, which is the order of the instants while both lie in the years
  0000 to 9999 and is not beyond them.
\<close>

record Backend =
  refuses :: "Statement \<Rightarrow> bool"
  timestampLess :: "Time \<Rightarrow> Time \<Rightarrow> bool"

text \<open>
  \<^verbatim>\<open>IdentifyNewInlineComments\<close>. The argument \<^verbatim>\<open>commentsByID\<close> is a Go map; it is the
  list of its entries in the order \<^verbatim>\<open>range\<close> visits them (any order, keys distinct),
  and \<^verbatim>\<open>delete(commentsByID, k)\<close> is \<open>AList.delete k\<close>. The function changes the
  caller's map, so the model returns it beside the error and the store.

  The \<^verbatim>\<open>SELECT\<close> yields the \<^verbatim>\<open>comment_id\<close> of every row whose id is a key of the
  map; the loop over \<^verbatim>\<open>rows.Next()\<close> deletes each from the map; what is left goes into
  one multi-row upsert. Either statement fails on a closed handle and when the engine
  refuses it.
\<close>

definition selectFoundCommentIDs ::
  "Backend \<Rightarrow> DB \<Rightarrow> (string \<times> Time) list \<Rightarrow> error + string list" where
  "selectFoundCommentIDs e d commentsByID =
     (if closed d then Inl SqlErrDBClosed
      else if refuses e (SelectInlineComments (map fst commentsByID)) then Inl SqlStatementError
      else Inr (map CommentId
                  (filter (\<lambda>r. CommentId r \<in> set (map fst commentsByID)) (inline_comments d))))"

definition insertInlineComments ::
  "Backend \<Rightarrow> DB \<Rightarrow> (string \<times> Time) list \<Rightarrow> error + DB" where
  "insertInlineComments e d commentsByID =
     (if closed d then Inl SqlErrDBClosed
      else if refuses e (InsertInlineComments commentsByID) then Inl SqlStatementError
      else Inr (d\<lparr>inline_comments := fold upsertInlineComment commentsByID (inline_comments d)\<rparr>))"

definition IdentifyNewInlineComments ::
  "Backend \<Rightarrow> PersistentDB \<Rightarrow> (string \<times> Time) list
     \<Rightarrow> error option \<times> (string \<times> Time) list \<times> PersistentDB" where
  "IdentifyNewInlineComments e ud commentsByID =
     (if length commentsByID = 0 then (None, commentsByID, ud)
      else case selectFoundCommentIDs e (db ud) commentsByID of
             Inl err \<Rightarrow> (Some err, commentsByID, ud)
           | Inr found \<Rightarrow>
               let commentsByID' = fold AList.delete found commentsByID
               in if length commentsByID' > 0
                  then (case insertInlineComments e (db ud) commentsByID' of
                          Inl err \<Rightarrow> (Some err, commentsByID', ud)
                        | Inr d \<Rightarrow> (None, commentsByID', ud\<lparr>db := d\<rparr>))
                  else (None, commentsByID', ud))"

text \<open>The timestamp the table holds for a comment id.\<close>

definition storedUpdatedAt :: "PersistentDB \<Rightarrow> string \<Rightarrow> Time option" where
  "storedUpdatedAt ud k =
     map_option UpdatedAt (find (\<lambda>r. CommentId r = k) (inline_comments (db ud)))"

subsection \<open>Pruning\<close>









section \<open>The governor and its teams (package main)\<close>

subsection \<open>The team file\<close>

text \<open>
  \<^verbatim>\<open>strings.TrimSpace\<close> cuts Unicode white space off both ends. On the bytes of a
  string that is: the six ASCII ones, and the UTF-8 encodings of U+0085, U+00A0, U+1680,
  U+2000 to U+200A, U+2028, U+2029, U+202F, U+205F and U+3000.
\<close>

definition isAsciiSpace :: "char \<Rightarrow> bool" where
  "isAsciiSpace c = List.member [CHR 0x09, CHR 0x0A, CHR 0x0B, CHR 0x0C, CHR 0x0D, CHR '' ''] c"

definition unicodeSpaces :: "string list" where
  "unicodeSpaces =
     [[CHR 0xC2, CHR 0x85], [CHR 0xC2, CHR 0xA0], [CHR 0xE1, CHR 0x9A, CHR 0x80],
      [CHR 0xE2, CHR 0x80, CHR 0x80], [CHR 0xE2, CHR 0x80, CHR 0x81],
      [CHR 0xE2, CHR 0x80, CHR 0x82], [CHR 0xE2, CHR 0x80, CHR 0x83],
      [CHR 0xE2, CHR 0x80, CHR 0x84], [CHR 0xE2, CHR 0x80, CHR 0x85],
      [CHR 0xE2, CHR 0x80, CHR 0x86], [CHR 0xE2, CHR 0x80, CHR 0x87],
      [CHR 0xE2, CHR 0x80, CHR 0x88], [CHR 0xE2, CHR 0x80, CHR 0x89],
      [CHR 0xE2, CHR 0x80, CHR 0x8A], [CHR 0xE2, CHR 0x80, CHR 0xA8],
      [CHR 0xE2, CHR 0x80, CHR 0xA9], [CHR 0xE2, CHR 0x80, CHR 0xAF],
      [CHR 0xE2, CHR 0x81, CHR 0x9F], [CHR 0xE3, CHR 0x80, CHR 0x80]]"

text \<open>How many bytes of white space the string starts with: 0 when it starts with none.\<close>

definition leadingSpace :: "string list \<Rightarrow> string \<Rightarrow> nat" where
  "leadingSpace seqs s =
     (case s of
        [] \<Rightarrow> 0
      | c # cs \<Rightarrow>
          if isAsciiSpace c then 1
          else case find (\<lambda>q. take (length q) s = q) seqs of
                 None \<Rightarrow> 0
               | Some q \<Rightarrow> length q)"

function trimLeft :: "string list \<Rightarrow> string \<Rightarrow> string" where
  "trimLeft seqs s =
     (if leadingSpace seqs s = 0 \<or> s = [] then s else trimLeft seqs (drop (leadingSpace seqs s) s))"
  by pat_completeness auto
termination
  by (relation "measure (\<lambda>(seqs, s). length s)") auto

declare trimLeft.simps [simp del]

definition TrimSpace :: "string \<Rightarrow> string" where
  "TrimSpace s = rev (trimLeft (map rev unicodeSpaces) (rev (trimLeft unicodeSpaces s)))"

text \<open>
  \<^verbatim>\<open>bufio.Scanner\<close> with \<^verbatim>\<open>ScanLines\<close>: the text is cut at each newline, one trailing
  carriage return is dropped from a line, and what follows the last newline is a line
  when it is not empty. A line of \<^verbatim>\<open>MaxScanTokenSize\<close> bytes or more fills the buffer
  before its newline is seen: the scan stops there and \<^verbatim>\<open>scanner.Err()\<close> is
  \<^verbatim>\<open>ErrTooLong\<close>. The result is the lines delivered and whether the scan ended so;
  \<open>cur\<close> is the line being read, last byte first.
\<close>

definition MaxScanTokenSize :: nat where
  "MaxScanTokenSize = 64 * 1024"

definition dropCR :: "string \<Rightarrow> string" where
  "dropCR l = (if l \<noteq> [] \<and> last l = CHR 0x0D then butlast l else l)"

fun scanLines :: "string \<Rightarrow> string \<Rightarrow> string list \<times> bool" where
  "scanLines cur [] = (if cur = [] then ([], False) else ([dropCR (rev cur)], False))"
| "scanLines cur (c # cs) =
     (if c = CHR 0x0A then (case scanLines [] cs of (ls, tooLong) \<Rightarrow> (dropCR (rev cur) # ls, tooLong))
      else if MaxScanTokenSize \<le> length (c # cur) then ([], True)
      else scanLines (c # cur) cs)"

text \<open>\<^verbatim>\<open>strings.SplitN(s, " ", 2)\<close>: cut at the first space, when there is one.\<close>

definition SplitN2 :: "string \<Rightarrow> string list" where
  "SplitN2 s =
     (case dropWhile (\<lambda>c. c \<noteq> CHR '' '') s of
        [] \<Rightarrow> [s]
      | sp # rest \<Rightarrow> [takeWhile (\<lambda>c. c \<noteq> CHR '' '') s, rest])"

text \<open>
  The loop of \<^verbatim>\<open>readTeamFile\<close> over the scanned lines. \<^verbatim>\<open>teamData\<close> is a Go map,
  modelled by the list of its entries; \<^verbatim>\<open>teamData[k] = v\<close> is \<open>AList.update k v\<close>.
\<close>

fun readTeamLines :: "(string \<times> string) list \<Rightarrow> string list \<Rightarrow> error + (string \<times> string) list" where
  "readTeamLines teamData [] = Inr teamData"
| "readTeamLines teamData (l # ls) =
     (let teamLine = TrimSpace l
      in if teamLine = [] \<or> take 1 teamLine = ''#'' then readTeamLines teamData ls
         else let parts = SplitN2 teamLine
              in if length parts < 2 then Inl InvalidTeamDefinitionLine
                 else readTeamLines (AList.update (parts ! 0) (parts ! 1) teamData) ls)"

text \<open>
  \<^verbatim>\<open>readTeamFile\<close>. The file is its contents, \<open>None\<close> when it does not exist.
\<close>

definition readTeamFile :: "string option \<Rightarrow> error + (string \<times> string) list" where
  "readTeamFile file =
     (case file of
        None \<Rightarrow> Inl OsErrNotExist
      | Some contents \<Rightarrow>
          (case scanLines [] contents of (ls, tooLong) \<Rightarrow>
             (case readTeamLines [] ls of
                Inl err \<Rightarrow> Inl err
              | Inr teamData \<Rightarrow> if tooLong then Inl ReadingFromTeamFile else Inr teamData)))"

subsection \<open>Teams\<close>

text \<open>
  A \<^verbatim>\<open>context.CancelFunc\<close> held in a field is \<open>None\<close> while the field is nil.
  \<^verbatim>\<open>app.App\<close> is not among the sources; of it the model keeps the setup data it was
  built from and whether \<^verbatim>\<open>Close\<close> was called on it. The field \<^verbatim>\<open>id\<close> of a team is
  \<open>id'\<close> here.
\<close>

datatype CancelFunc = CancelFunc

record App =
  appSetupData :: string
  appClosed :: bool

record Team =
  id' :: string
  canceler :: "CancelFunc option"
  teamApp :: "App option"
  setupData :: string
  runError :: "error option"

datatype panic =
    NilFuncCall            \<comment> \<open>call of a nil function value\<close>
  | NilPointerDereference  \<comment> \<open>method that reads its receiver, called on a nil pointer\<close>

text \<open>
  What \<^verbatim>\<open>NewTeam\<close> and \<^verbatim>\<open>StartTeam\<close> build:
  \<^verbatim>\<open>&Team{id: teamID, setupData: setupData, logger: ...}\<close>; the other fields are zero.
\<close>

definition newTeamValue :: "string \<Rightarrow> string \<Rightarrow> Team" where
  "newTeamValue teamID sd =
     \<lparr>id' = teamID, canceler = None, teamApp = None, setupData = sd, runError = None\<rparr>"

text \<open>
  Modelled from the spec: \<^verbatim>\<open>App.Close\<close> (app/app.go is not among the sources) closes
  the team's store and returns its error, none here. It reads the fields of its
  receiver, so on a nil \<^verbatim>\<open>*App\<close> it panics.
\<close>

definition AppClose :: "App option \<Rightarrow> panic + (error option \<times> App)" where
  "AppClose a = (case a of None \<Rightarrow> Inl NilPointerDereference
                 | Some ap \<Rightarrow> Inr (None, ap\<lparr>appClosed := True\<rparr>))"

text \<open>
  \<^verbatim>\<open>Team.Close\<close>: \<^verbatim>\<open>t.canceler()\<close>, then \<^verbatim>\<open>return t.teamApp.Close()\<close>. Calling a
  nil function value panics.
\<close>

definition Close :: "Team \<Rightarrow> panic + (error option \<times> Team)" where
  "Close t =
     (case canceler t of
        None \<Rightarrow> Inl NilFuncCall
      | Some cancel \<Rightarrow>
          (case AppClose (teamApp t) of
             Inl p \<Rightarrow> Inl p
           | Inr (err, ap) \<Rightarrow> Inr (err, t\<lparr>teamApp := Some ap\<rparr>)))"

text \<open>
  \<^verbatim>\<open>Team.Run\<close>. What the three constructors it calls return is the environment's:
  \<^verbatim>\<open>slack.NewSlackInterface\<close> (fails when the setup data is not the JSON it expects),
  \<^verbatim>\<open>addSearchPath\<close> and \<^verbatim>\<open>app.NewPersistentDB\<close>.
\<close>

record RunEnv =
  slackFails :: bool
  searchPathFails :: bool
  openDBFails :: bool

text \<open>
  \<^verbatim>\<open>Run\<close> up to \<^verbatim>\<open>errGroup.Wait()\<close>: either it has returned, with \<^verbatim>\<open>runError\<close> set,
  or \<^verbatim>\<open>teamApp\<close> is set and the two report loops run. The local \<^verbatim>\<open>cancel\<close> of
  \<^verbatim>\<open>context.WithCancel\<close> is deferred and never stored in \<^verbatim>\<open>t.canceler\<close>.
\<close>

datatype RunState = Returned Team | Waiting Team | Panicked panic

definition RunStart :: "RunEnv \<Rightarrow> Team \<Rightarrow> RunState" where
  "RunStart env t =
     (if slackFails env then Returned (t\<lparr>runError := Some CouldNotInitializeSlack\<rparr>)
      else if searchPathFails env then Returned (t\<lparr>runError := Some CouldNotParseDBSource\<rparr>)
      else if openDBFails env then Returned (t\<lparr>runError := Some CouldNotOpenDB\<rparr>)
      else Waiting (t\<lparr>teamApp := Some \<lparr>appSetupData = setupData t, appClosed = False\<rparr>\<rparr>))"

text \<open>
  \<^verbatim>\<open>Run\<close> from the moment \<^verbatim>\<open>errGroup.Wait()\<close> returns (both report loops have
  ended): it calls \<^verbatim>\<open>t.Close()\<close>, logs its error and returns.
\<close>

definition RunFinish :: "Team \<Rightarrow> RunState" where
  "RunFinish t = (case Close t of Inl p \<Rightarrow> Panicked p | Inr (err, t') \<Rightarrow> Returned t')"

text \<open>The team a \<open>RunState\<close> leaves behind a pointer held elsewhere.\<close>

fun teamOf :: "Team \<Rightarrow> RunState \<Rightarrow> Team" where
  "teamOf t (Returned t') = t'"
| "teamOf t (Waiting t') = t'"
| "teamOf t (Panicked p) = t"

subsection \<open>The governor\<close>

text \<open>
  \<^verbatim>\<open>Governor\<close>: the map of active teams and the team file. The map holds pointers;
  the model holds the team a pointer refers to, and a step of that team's \<^verbatim>\<open>Run\<close>
  goroutine rewrites the entry. \<open>teamFileContents\<close> is the contents of the file named
  \<^verbatim>\<open>g.teamFile\<close>, \<open>None\<close> while it does not exist.
\<close>

record Governor =
  teams :: "string \<rightharpoonup> Team"
  teamFileContents :: "string option"

text \<open>
  What the file system does with one \<^verbatim>\<open>appendTeamDefinition\<close>: all goes well, the
  \<^verbatim>\<open>OpenFile\<close> fails, the \<^verbatim>\<open>Write\<close> fails after that many bytes, or the \<^verbatim>\<open>Close\<close>
  fails after the write. The first component of the result tells whether
  \<^verbatim>\<open>appendTeamDefinition\<close> returned an error.
\<close>

datatype FileOutcome = FileOk | OpenFails | WriteFails nat | CloseFails

definition appendTeamDefinition ::
  "Governor \<Rightarrow> FileOutcome \<Rightarrow> string \<Rightarrow> string \<Rightarrow> bool \<times> Governor" where
  "appendTeamDefinition g io teamID sd =
     (let dataLine = teamID @ '' '' @ sd @ [CHR 0x0A];
          old = (case teamFileContents g of None \<Rightarrow> [] | Some contents \<Rightarrow> contents)
      in case io of
           OpenFails \<Rightarrow> (True, g)
         | WriteFails n \<Rightarrow> (True, g\<lparr>teamFileContents := Some (old @ take n dataLine)\<rparr>)
         | CloseFails \<Rightarrow> (True, g\<lparr>teamFileContents := Some (old @ dataLine)\<rparr>)
         | FileOk \<Rightarrow> (False, g\<lparr>teamFileContents := Some (old @ dataLine)\<rparr>))"

text \<open>
  \<^verbatim>\<open>strings.ContainsAny(teamID, " \n")\<close> and \<^verbatim>\<open>strings.Contains(setupData, "\n")\<close>.
\<close>

definition ContainsAny :: "string \<Rightarrow> string \<Rightarrow> bool" where
  "ContainsAny s chars = list_ex (\<lambda>c. List.member chars c) s"

text \<open>
  \<^verbatim>\<open>NewTeam\<close> and \<^verbatim>\<open>StartTeam\<close>, which hold \<^verbatim>\<open>teamsLock\<close> from entry to return. The
  \<^verbatim>\<open>go team.Run(...)\<close> they end with is the separate step \<open>runTeamStart\<close> below.
\<close>

definition NewTeam :: "Governor \<Rightarrow> FileOutcome \<Rightarrow> string \<Rightarrow> string \<Rightarrow> error option \<times> Governor" where
  "NewTeam g io teamID sd =
     (if teams g teamID \<noteq> None then (Some TeamAlreadyActive, g)
      else if ContainsAny teamID [CHR '' '', CHR 0x0A] then (Some InvalidTeamID, g)
      else if ContainsAny sd [CHR 0x0A] then (Some InvalidSetupData, g)
      else case appendTeamDefinition g io teamID sd of
             (True, g') \<Rightarrow> (Some CouldNotAddTeamDefinition, g')
           | (False, g') \<Rightarrow> (None, g'\<lparr>teams := (teams g')(teamID \<mapsto> newTeamValue teamID sd)\<rparr>))"

definition StartTeam :: "Governor \<Rightarrow> string \<Rightarrow> string \<Rightarrow> error option \<times> Governor" where
  "StartTeam g teamID sd =
     (if teams g teamID \<noteq> None then (Some TeamAlreadyActive, g)
      else (None, g\<lparr>teams := (teams g)(teamID \<mapsto> newTeamValue teamID sd)\<rparr>))"

text \<open>
  \<^verbatim>\<open>NewGovernor\<close>: a team file that does not exist is an empty one, any other read
  error is returned; a team that fails to start is logged and skipped.
\<close>

definition NewGovernor :: "string option \<Rightarrow> error + Governor" where
  "NewGovernor file =
     (case (case readTeamFile file of
              Inl err \<Rightarrow> if err = OsErrNotExist then Inr [] else Inl err
            | Inr teamData \<Rightarrow> Inr teamData) of
        Inl err \<Rightarrow> Inl err
      | Inr teamData \<Rightarrow>
          Inr (fold (\<lambda>(teamID, sd) g. snd (StartTeam g teamID sd)) teamData
                 \<lparr>teams = Map.empty, teamFileContents = file\<rparr>))"

text \<open>
  A step of the \<^verbatim>\<open>Run\<close> goroutine of the team the map holds under \<open>teamID\<close>: its
  start-up, which writes \<^verbatim>\<open>runError\<close> or \<^verbatim>\<open>teamApp\<close> through the pointer the map holds.
\<close>

definition runTeamStart :: "RunEnv \<Rightarrow> Governor \<Rightarrow> string \<Rightarrow> Governor" where
  "runTeamStart env g teamID =
     (case teams g teamID of
        None \<Rightarrow> g
      | Some t \<Rightarrow> g\<lparr>teams := (teams g)(teamID \<mapsto> teamOf t (RunStart env t))\<rparr>)"

text \<open>
  What \<^verbatim>\<open>team.teamApp.ChatEvent\<close> returned to the goroutine of
  \<^verbatim>\<open>VerifyAndHandleChatEvent\<close>.
\<close>

datatype ChatResult = ChatNil | ChatErrStopTeam | ChatOtherError

text \<open>
  \<^verbatim>\<open>VerifyAndHandleChatEvent\<close> after \<^verbatim>\<open>slack.VerifyEventMessage\<close> has named the team:
  an unknown team changes nothing; for a known one the goroutine removes the team from
  the map on \<^verbatim>\<open>slack.ErrStopTeam\<close> and calls \<^verbatim>\<open>team.teamApp.Close()\<close>, and only logs
  any other result. The second component is what that \<^verbatim>\<open>Close\<close> did, when it was
  called.
\<close>

definition handleChatEvent :: "Governor \<Rightarrow> string \<Rightarrow> ChatResult \<Rightarrow> Governor \<times> (panic + (error option \<times> App)) option" where
  "handleChatEvent g teamID res =
     (case teams g teamID of
        None \<Rightarrow> (g, None)
      | Some team \<Rightarrow>
          if res = ChatErrStopTeam
          then (g\<lparr>teams := (teams g)(teamID := None)\<rparr>, Some (AppClose (teamApp team)))
          else (g, None))"

subsection \<open>A store for the examples\<close>

definition exampleConfigStore :: PersistentDB where
  "exampleConfigStore =
     \<lparr>db = \<lparr>gerrit_users = [], inline_comments = [],
             team_configs = [\<lparr>ConfigKey = ''a'', ConfigValue = ''YES''\<rparr>,
                             \<lparr>ConfigKey = ''b'', ConfigValue = ''0''\<rparr>,
                             \<lparr>ConfigKey = ''c'', ConfigValue = []\<rparr>,
                             \<lparr>ConfigKey = ''d'', ConfigValue = ''maybe''\<rparr>],
             patchset_announcements = [], closed = False\<rparr>,
      cache = Map.empty\<rparr>"

definition exampleCommentStore :: PersistentDB where
  "exampleCommentStore =
     \<lparr>db = \<lparr>gerrit_users = [], inline_comments = [\<lparr>CommentId = ''c0'', UpdatedAt = 3\<rparr>],
             team_configs = [], patchset_announcements = [], closed = False\<rparr>,
      cache = Map.empty\<rparr>"





text \<open>
  The engine of the examples. It refuses the \<^verbatim>\<open>SELECT\<close> from a thousand ids on, as
  SQLite does by default, and no other statement; it orders timestamps as time does.
  Every instant of the examples lies between the years 1677 and 2262.
\<close>

definition exampleBackend :: Backend where
  "exampleBackend =
     \<lparr>refuses = (\<lambda>s. case s of SelectInlineComments ids \<Rightarrow> 1000 \<le> length ids | _ \<Rightarrow> False),
      timestampLess = (\<lambda>a b. a < b)\<rparr>"

definition emptyStore :: PersistentDB where
  "emptyStore =
     \<lparr>db = \<lparr>gerrit_users = [], inline_comments = [], team_configs = [],
             patchset_announcements = [], closed = False\<rparr>,
      cache = Map.empty\<rparr>"

subsection \<open>Governors and environments for the examples\<close>

definition emptyGovernor :: Governor where
  "emptyGovernor = \<lparr>teams = Map.empty, teamFileContents = None\<rparr>"

definition failingSlack :: RunEnv where
  "failingSlack = \<lparr>slackFails = True, searchPathFails = False, openDBFails = False\<rparr>"

definition workingEnv :: RunEnv where
  "workingEnv = \<lparr>slackFails = False, searchPathFails = False, openDBFails = False\<rparr>"

text \<open>What the team file holds, the empty text while it does not exist.\<close>

definition teamFileText :: "Governor \<Rightarrow> string" where
  "teamFileText g = (case teamFileContents g of None \<Rightarrow> [] | Some contents \<Rightarrow> contents)"

section \<open>Config accessors: results\<close>

lemma GetConfig_open:
  "\<not> closed (db ud) \<Longrightarrow>
   GetConfig ud key dflt = (case storedConfig ud key of None \<Rightarrow> (dflt, None) | Some v \<Rightarrow> (v, None))"
  by (simp add: GetConfig_def Get_TeamConfig_ConfigValue_By_ConfigKey_def storedConfig_def
      split: option.splits)

lemma GetConfigBool_open:
  "\<not> closed (db ud) \<Longrightarrow>
   GetConfigBool ud key d =
     (case storedConfig ud key of
        None \<Rightarrow> (d, None)
      | Some v \<Rightarrow>
          if v = [] then (d, None)
          else if ToLower v \<in> {''yes'', ''y'', ''1'', ''on'', ''true'', ''t''} then (True, None)
          else if ToLower v \<in> {''no'', ''n'', ''0'', ''off'', ''false'', ''f''} then (False, None)
          else (d, Some InvalidBooleanValue))"
  by (simp add: GetConfigBool_def GetConfig_open Let_def split: option.splits)

lemma ToLower_YES: "ToLower ''YES'' = ''yes''"
  by (simp add: ToLower_def toLowerByte_def)

lemma ToLower_0: "ToLower ''0'' = ''0''"
  by (simp add: ToLower_def toLowerByte_def)

lemma ToLower_maybe: "ToLower ''maybe'' = ''maybe''"
  by (simp add: ToLower_def toLowerByte_def)

text \<open>
  Claim C8. On an open store, \<^verbatim>\<open>GetConfigBool\<close> returns \<open>(True, nil)\<close> when the stored
  value lowercased is one of yes, y, 1, on, true, t; \<open>(False, nil)\<close> when it is one of
  no, n, 0, off, false, f; the default and no error when the value is empty or the key
  has no row; the default and an error for every other value. In particular
  \<^verbatim>\<open>YES\<close>, \<^verbatim>\<open>0\<close> and \<^verbatim>\<open>maybe\<close> give true, false and default-with-error.
\<close>

theorem GetConfigBool_tokens:
  assumes "\<not> closed (db ud)"
  shows "(\<forall>v. storedConfig ud key = Some v \<and> ToLower v \<in> {''yes'', ''y'', ''1'', ''on'', ''true'', ''t''}
              \<longrightarrow> GetConfigBool ud key d = (True, None))
       \<and> (\<forall>v. storedConfig ud key = Some v \<and> ToLower v \<in> {''no'', ''n'', ''0'', ''off'', ''false'', ''f''}
              \<longrightarrow> GetConfigBool ud key d = (False, None))
       \<and> (storedConfig ud key = Some [] \<or> storedConfig ud key = None
              \<longrightarrow> GetConfigBool ud key d = (d, None))
       \<and> (\<forall>v. storedConfig ud key = Some v \<and> v \<noteq> []
               \<and> ToLower v \<notin> {''yes'', ''y'', ''1'', ''on'', ''true'', ''t''}
               \<and> ToLower v \<notin> {''no'', ''n'', ''0'', ''off'', ''false'', ''f''}
              \<longrightarrow> GetConfigBool ud key d = (d, Some InvalidBooleanValue))
       \<and> (storedConfig ud key = Some ''YES'' \<longrightarrow> GetConfigBool ud key d = (True, None))
       \<and> (storedConfig ud key = Some ''0'' \<longrightarrow> GetConfigBool ud key d = (False, None))
       \<and> (storedConfig ud key = Some ''maybe'' \<longrightarrow> GetConfigBool ud key d = (d, Some InvalidBooleanValue))"
proof -
  have tok: "\<And>v. ToLower v \<in> {''yes'', ''y'', ''1'', ''on'', ''true'', ''t''} \<Longrightarrow> v \<noteq> []"
            "\<And>v. ToLower v \<in> {''no'', ''n'', ''0'', ''off'', ''false'', ''f''} \<Longrightarrow> v \<noteq> []"
    by (auto simp: ToLower_def)
  have disj: "\<And>v. ToLower v \<in> {''no'', ''n'', ''0'', ''off'', ''false'', ''f''} \<Longrightarrow>
                  ToLower v \<notin> {''yes'', ''y'', ''1'', ''on'', ''true'', ''t''}"
    by auto
  show ?thesis
    using tok disj
    by (simp add: GetConfigBool_open [OF assms] ToLower_YES ToLower_0 ToLower_maybe) 
qed

theorem GetConfigBool_tokens_witness:
  "\<not> closed (db exampleConfigStore)
   \<and> storedConfig exampleConfigStore ''a'' = Some ''YES''
   \<and> GetConfigBool exampleConfigStore ''a'' False = (True, None)
   \<and> storedConfig exampleConfigStore ''b'' = Some ''0''
   \<and> GetConfigBool exampleConfigStore ''b'' True = (False, None)
   \<and> storedConfig exampleConfigStore ''c'' = Some []
   \<and> GetConfigBool exampleConfigStore ''c'' True = (True, None)
   \<and> storedConfig exampleConfigStore ''d'' = Some ''maybe''
   \<and> GetConfigBool exampleConfigStore ''d'' True = (True, Some InvalidBooleanValue)
   \<and> storedConfig exampleConfigStore ''e'' = None
   \<and> GetConfigBool exampleConfigStore ''e'' False = (False, None)"
proof -
  have op: "\<not> closed (db exampleConfigStore)"
    by (simp add: exampleConfigStore_def)
  have a: "storedConfig exampleConfigStore ''a'' = Some ''YES''"
    and b: "storedConfig exampleConfigStore ''b'' = Some ''0''"
    and c: "storedConfig exampleConfigStore ''c'' = Some []"
    and d: "storedConfig exampleConfigStore ''d'' = Some ''maybe''"
    and e: "storedConfig exampleConfigStore ''e'' = None"
    by (simp_all add: exampleConfigStore_def storedConfig_def)
  show ?thesis
    using op a b c d e
      GetConfigBool_tokens [OF op, of "''a''" False]
      GetConfigBool_tokens [OF op, of "''b''" True]
      GetConfigBool_tokens [OF op, of "''c''" True]
      GetConfigBool_tokens [OF op, of "''d''" True]
      GetConfigBool_tokens [OF op, of "''e''" False]
    by simp
qed

lemma find_upsertTeamConfig:
  "map_option ConfigValue (find (\<lambda>r. ConfigKey r = k) (upsertTeamConfig k v rs)) = Some v"
  by (induction rs) auto

lemma storedConfig_SetConfig:
  "\<not> closed (db ud) \<Longrightarrow> storedConfig (snd (SetConfig ud key v)) key = Some v"
  by (simp add: SetConfig_def storedConfig_def find_upsertTeamConfig)

lemma SetConfig_open:
  "\<not> closed (db ud) \<Longrightarrow> fst (SetConfig ud key v) = None \<and> \<not> closed (db (snd (SetConfig ud key v)))"
  by (simp add: SetConfig_def)

lemma FormatInt32_32: "FormatInt32 32 = ''10''"
  by code_simp

lemma ParseInt_10: "ParseInt ''10'' 0 32 = (10, None)"
  by (simp add: ParseInt_def ParseUint_def byte_def lower_def)

lemma GetConfigInt_open:
  "\<not> closed (db ud) \<Longrightarrow>
   GetConfigInt ud key d =
     (case storedConfig ud key of
        None \<Rightarrow> (d, None)
      | Some v \<Rightarrow> if v = [] then (d, None)
                  else if snd (ParseInt v 0 32) \<noteq> None then (d, snd (ParseInt v 0 32))
                  else (fst (ParseInt v 0 32), None))"
  by (simp add: GetConfigInt_def GetConfig_open split: option.splits prod.splits)

text \<open>
  Claim C9. \<^verbatim>\<open>SetConfigInt\<close> writes its argument in base 32 and \<^verbatim>\<open>GetConfigInt\<close>
  reads the stored string with the base taken from its prefix, so storing and reading
  back is not the identity: on every open store, 32 is stored as \<^verbatim>\<open>10\<close> and read
  back as 10 with no error.
\<close>

theorem SetConfigInt_GetConfigInt_mismatch:
  assumes "\<not> closed (db ud)"
  shows "fst (SetConfigInt ud key 32) = None
       \<and> storedConfig (snd (SetConfigInt ud key 32)) key = Some ''10''
       \<and> GetConfigInt (snd (SetConfigInt ud key 32)) key d = (10, None)
       \<and> (\<exists>v. fst (SetConfigInt ud key v) = None
              \<and> GetConfigInt (snd (SetConfigInt ud key v)) key d \<noteq> (v, None))"
proof -
  have ok: "fst (SetConfigInt ud key 32) = None"
    and op: "\<not> closed (db (snd (SetConfigInt ud key 32)))"
    using SetConfig_open [OF assms] by (simp_all add: SetConfigInt_def)
  have st: "storedConfig (snd (SetConfigInt ud key 32)) key = Some ''10''"
    using storedConfig_SetConfig [OF assms] by (simp add: SetConfigInt_def FormatInt32_32)
  have get: "GetConfigInt (snd (SetConfigInt ud key 32)) key d = (10, None)"
    by (simp add: GetConfigInt_open [OF op] st ParseInt_10)
  from ok get have "fst (SetConfigInt ud key 32) = None
       \<and> GetConfigInt (snd (SetConfigInt ud key 32)) key d \<noteq> (32, None)"
    by simp
  then have "\<exists>v. fst (SetConfigInt ud key v) = None
              \<and> GetConfigInt (snd (SetConfigInt ud key v)) key d \<noteq> (v, None)" ..
  with ok st get show ?thesis by simp
qed

theorem SetConfigInt_GetConfigInt_mismatch_witness:
  "\<not> closed (db exampleConfigStore)
   \<and> fst (SetConfigInt exampleConfigStore ''n'' 32) = None
   \<and> storedConfig (snd (SetConfigInt exampleConfigStore ''n'' 32)) ''n'' = Some ''10''
   \<and> GetConfigInt (snd (SetConfigInt exampleConfigStore ''n'' 32)) ''n'' 7 = (10, None)"
proof -
  have op: "\<not> closed (db exampleConfigStore)"
    by (simp add: exampleConfigStore_def)
  show ?thesis
    using op SetConfigInt_GetConfigInt_mismatch [OF op, of "''n''" 7] by simp
qed

section \<open>Inline comments: results\<close>

lemma fold_delete_filter:
  "fold AList.delete ks m = filter (\<lambda>p. fst p \<notin> set ks) m"
proof (induction ks arbitrary: m)
  case Nil
  then show ?case by simp
next
  case (Cons k ks)
  have "AList.delete k m = filter (\<lambda>p. fst p \<noteq> k) m"
    by (simp add: AList.delete_eq case_prod_unfold) (rule filter_cong, auto)
  then show ?case
    by (simp add: Cons.IH)
qed

lemma upsert_new:
  "k \<notin> CommentId ` set rs \<Longrightarrow>
   upsertInlineComment (k, t) rs = rs @ [\<lparr>CommentId = k, UpdatedAt = t\<rparr>]"
  by (induction rs) auto

lemma fold_upsert_new:
  "distinct (map fst m) \<Longrightarrow> fst ` set m \<inter> CommentId ` set rs = {} \<Longrightarrow>
   fold upsertInlineComment m rs = rs @ map (\<lambda>p. \<lparr>CommentId = fst p, UpdatedAt = snd p\<rparr>) m"
proof (induction m arbitrary: rs)
  case Nil
  then show ?case by simp
next
  case (Cons p m)
  obtain k t where p: "p = (k, t)" by (cases p)
  from Cons.prems have knew: "k \<notin> CommentId ` set rs"
    by (auto simp: p)
  have step: "upsertInlineComment p rs = rs @ [\<lparr>CommentId = k, UpdatedAt = t\<rparr>]"
    using upsert_new [OF knew] by (simp add: p)
  have d: "distinct (map fst m)" using Cons.prems by simp
  have disj: "fst ` set m \<inter> CommentId ` set (rs @ [\<lparr>CommentId = k, UpdatedAt = t\<rparr>]) = {}"
    using Cons.prems by (auto simp: p)
  have "fold upsertInlineComment (p # m) rs
        = fold upsertInlineComment m (rs @ [\<lparr>CommentId = k, UpdatedAt = t\<rparr>])"
    by (simp add: step)
  also have "\<dots> = (rs @ [\<lparr>CommentId = k, UpdatedAt = t\<rparr>])
                   @ map (\<lambda>p. \<lparr>CommentId = fst p, UpdatedAt = snd p\<rparr>) m"
    by (rule Cons.IH [OF d disj])
  finally show ?case by (simp add: p)
qed

lemma remaining_filter:
  "filter (\<lambda>p. fst p \<notin> CommentId ` {r \<in> set rs. CommentId r \<in> fst ` set m}) m
   = filter (\<lambda>p. fst p \<notin> CommentId ` set rs) m"
  by (rule filter_cong) force+

text \<open>
  Every way one call can go, when the keys of the argument are distinct: nothing to do,
  the \<^verbatim>\<open>SELECT\<close> fails, nothing is new, the \<^verbatim>\<open>INSERT\<close> fails, or the new rows are appended.
\<close>

lemma IdentifyNewInlineComments_cases:
  assumes "distinct (map fst m)"
  shows "IdentifyNewInlineComments e ud m =
           (if m = [] then (None, m, ud)
            else if closed (db ud) then (Some SqlErrDBClosed, m, ud)
            else if refuses e (SelectInlineComments (map fst m)) then (Some SqlStatementError, m, ud)
            else if filter (\<lambda>p. fst p \<notin> CommentId ` set (inline_comments (db ud))) m = []
              then (None, [], ud)
            else if refuses e (InsertInlineComments
                      (filter (\<lambda>p. fst p \<notin> CommentId ` set (inline_comments (db ud))) m))
              then (Some SqlStatementError,
                    filter (\<lambda>p. fst p \<notin> CommentId ` set (inline_comments (db ud))) m, ud)
            else (None,
                  filter (\<lambda>p. fst p \<notin> CommentId ` set (inline_comments (db ud))) m,
                  ud\<lparr>db := (db ud)\<lparr>inline_comments :=
                         inline_comments (db ud)
                         @ map (\<lambda>p. \<lparr>CommentId = fst p, UpdatedAt = snd p\<rparr>)
                             (filter (\<lambda>p. fst p \<notin> CommentId ` set (inline_comments (db ud))) m)\<rparr>\<rparr>))"
proof -
  let ?rows = "inline_comments (db ud)"
  let ?m' = "filter (\<lambda>p. fst p \<notin> CommentId ` set ?rows) m"
  have rem: "fold AList.delete
               (map CommentId (filter (\<lambda>r. CommentId r \<in> fst ` set m) ?rows)) m = ?m'"
    by (simp add: fold_delete_filter remaining_filter)
  have d: "distinct (map fst ?m')"
    using assms by (simp add: distinct_map_filter)
  have disj: "fst ` set ?m' \<inter> CommentId ` set ?rows = {}"
    by auto
  have ins: "fold upsertInlineComment ?m' ?rows
             = ?rows @ map (\<lambda>p. \<lparr>CommentId = fst p, UpdatedAt = snd p\<rparr>) ?m'"
    by (rule fold_upsert_new [OF d disj])
  show ?thesis
  proof (cases "m = []")
    case True
    then show ?thesis by (simp add: IdentifyNewInlineComments_def)
  next
    case False
    show ?thesis
    proof (cases "closed (db ud) \<or> refuses e (SelectInlineComments (map fst m))")
      case True
      then show ?thesis
        using False by (auto simp: IdentifyNewInlineComments_def selectFoundCommentIDs_def)
    next
      case sel: False
      then have found: "selectFoundCommentIDs e (db ud) m
                        = Inr (map CommentId (filter (\<lambda>r. CommentId r \<in> fst ` set m) ?rows))"
        by (simp add: selectFoundCommentIDs_def)
      show ?thesis
      proof (cases "?m' = []")
        case True
        then show ?thesis
          using False sel by (simp add: IdentifyNewInlineComments_def found rem Let_def)
      next
        case nonempty: False
        show ?thesis
        proof (cases "refuses e (InsertInlineComments ?m')")
          case True
          then show ?thesis
            using False sel nonempty
            by (simp add: IdentifyNewInlineComments_def found rem Let_def insertInlineComments_def)
        next
          case ok: False
          then show ?thesis
            using False sel nonempty
            by (simp add: IdentifyNewInlineComments_def found rem Let_def
                insertInlineComments_def ins)
        qed
      qed
    qed
  qed
qed

text \<open>A call that returns an error leaves the store as it was.\<close>

lemma Identify_failure:
  "fst (IdentifyNewInlineComments e ud m) \<noteq> None \<Longrightarrow>
   snd (snd (IdentifyNewInlineComments e ud m)) = ud"
  by (auto simp: IdentifyNewInlineComments_def Let_def split: if_splits sum.splits)

text \<open>A call that returns no error has appended a row for each entry whose id had none.\<close>

lemma Identify_success:
  assumes "distinct (map fst m)" and "fst (IdentifyNewInlineComments e ud m) = None"
  shows "fst (snd (IdentifyNewInlineComments e ud m))
           = filter (\<lambda>p. fst p \<notin> CommentId ` set (inline_comments (db ud))) m"
    and "inline_comments (db (snd (snd (IdentifyNewInlineComments e ud m))))
           = inline_comments (db ud)
             @ map (\<lambda>p. \<lparr>CommentId = fst p, UpdatedAt = snd p\<rparr>)
                 (filter (\<lambda>p. fst p \<notin> CommentId ` set (inline_comments (db ud))) m)"
  using assms(2)
  by (auto simp: IdentifyNewInlineComments_cases [OF assms(1)] split: if_splits)

text \<open>It returns no error when the store is open and the engine accepts both statements.\<close>

lemma Identify_succeeds:
  assumes "distinct (map fst m)" and "\<not> closed (db ud)"
    and "\<not> refuses e (SelectInlineComments (map fst m))"
    and "\<not> refuses e (InsertInlineComments
             (filter (\<lambda>p. fst p \<notin> CommentId ` set (inline_comments (db ud))) m))"
  shows "fst (IdentifyNewInlineComments e ud m) = None"
  using assms(2-4) by (simp add: IdentifyNewInlineComments_cases [OF assms(1)])

text \<open>Whatever the outcome, the table is as it was or has the new rows appended.\<close>

lemma Identify_table:
  assumes "distinct (map fst m)"
  shows "inline_comments (db (snd (snd (IdentifyNewInlineComments e ud m))))
           = inline_comments (db ud)
       \<or> inline_comments (db (snd (snd (IdentifyNewInlineComments e ud m))))
           = inline_comments (db ud)
             @ map (\<lambda>p. \<lparr>CommentId = fst p, UpdatedAt = snd p\<rparr>)
                 (filter (\<lambda>p. fst p \<notin> CommentId ` set (inline_comments (db ud))) m)"
  by (simp add: IdentifyNewInlineComments_cases [OF assms])

lemma find_append_first:
  "find P (xs @ ys) = (case find P xs of None \<Rightarrow> find P ys | Some x \<Rightarrow> Some x)"
  by (induction xs) auto

lemma find_row_of_entry:
  "distinct (map fst m) \<Longrightarrow> (k, t) \<in> set m \<Longrightarrow>
   find (\<lambda>r. CommentId r = k) (map (\<lambda>p. \<lparr>CommentId = fst p, UpdatedAt = snd p\<rparr>) m)
     = Some \<lparr>CommentId = k, UpdatedAt = t\<rparr>"
  by (induction m) (auto simp: rev_image_eqI)

lemma storedUpdatedAt_None_iff:
  "storedUpdatedAt ud k = None \<longleftrightarrow> k \<notin> CommentId ` set (inline_comments (db ud))"
  by (auto simp: storedUpdatedAt_def find_None_iff)

lemma Identify_keeps_present:
  assumes "distinct (map fst m)" and "storedUpdatedAt ud k \<noteq> None"
  shows "storedUpdatedAt (snd (snd (IdentifyNewInlineComments e ud m))) k = storedUpdatedAt ud k"
  using assms(2) Identify_table [OF assms(1), of e ud]
  by (auto simp: storedUpdatedAt_def find_append_first split: option.splits)

lemma Identify_records_new:
  assumes "distinct (map fst m)" and "fst (IdentifyNewInlineComments e ud m) = None"
    and "storedUpdatedAt ud k = None" and "(k, t) \<in> set m"
  shows "storedUpdatedAt (snd (snd (IdentifyNewInlineComments e ud m))) k = Some t"
proof -
  let ?m' = "filter (\<lambda>p. fst p \<notin> CommentId ` set (inline_comments (db ud))) m"
  have d: "distinct (map fst ?m')"
    using assms(1) by (simp add: distinct_map_filter)
  have knew: "k \<notin> CommentId ` set (inline_comments (db ud))"
    using assms(3) by (simp add: storedUpdatedAt_None_iff)
  then have mem: "(k, t) \<in> set ?m'"
    using assms(4) by simp
  have none: "find (\<lambda>r. CommentId r = k) (inline_comments (db ud)) = None"
    using assms(3) by (simp add: storedUpdatedAt_def)
  show ?thesis
    by (simp add: Identify_success(2) [OF assms(1,2)] storedUpdatedAt_def
        find_append_first none find_row_of_entry [OF d mem])
qed

lemma Identify_distinct:
  assumes "distinct (map fst m)"
    and "distinct (map CommentId (inline_comments (db ud)))"
  shows "distinct (map CommentId (inline_comments (db (snd (snd (IdentifyNewInlineComments e ud m))))))"
proof -
  let ?m' = "filter (\<lambda>p. fst p \<notin> CommentId ` set (inline_comments (db ud))) m"
  have d: "distinct (map fst ?m')"
    using assms(1) by (simp add: distinct_map_filter)
  have app: "distinct (map CommentId (inline_comments (db ud)
               @ map (\<lambda>p. \<lparr>CommentId = fst p, UpdatedAt = snd p\<rparr>) ?m'))"
    using assms(2) d by (simp add: comp_def) auto
  show ?thesis
    using Identify_table [OF assms(1), of e ud] assms(2) app by presburger
qed

text \<open>
  An engine that refuses the \<^verbatim>\<open>SELECT\<close> makes the call fail with the caller's map and
  the table as they were; the engine of the examples does so from a thousand ids on.
\<close>

lemma IdentifyNewInlineComments_refused:
  assumes "commentsByID \<noteq> []" and "\<not> closed (db ud)"
    and "refuses e (SelectInlineComments (map fst commentsByID))"
  shows "IdentifyNewInlineComments e ud commentsByID = (Some SqlStatementError, commentsByID, ud)"
  using assms by (simp add: IdentifyNewInlineComments_def selectFoundCommentIDs_def)

lemma exampleBackend_refuses_select:
  "refuses exampleBackend (SelectInlineComments ids) = (1000 \<le> length ids)"
  by (simp add: exampleBackend_def)

lemma thousand_ids_refused:
  "IdentifyNewInlineComments exampleBackend exampleCommentStore
     (map (\<lambda>n. (replicate n CHR ''c'', 7)) [1..<1001])
   = (Some SqlStatementError, map (\<lambda>n. (replicate n CHR ''c'', 7)) [1..<1001],
      exampleCommentStore)"
  by (rule IdentifyNewInlineComments_refused)
     (simp_all add: exampleBackend_refuses_select exampleCommentStore_def)

text \<open>
  Claim C6, as amended. \<^verbatim>\<open>IdentifyNewInlineComments\<close> on an empty map changes nothing.
  Take a store whose \<^verbatim>\<open>inline_comments\<close> rows have distinct ids and two calls in a row
  (each argument a map, so with distinct keys), the engine answering as \<open>e1\<close> at the
  first and as \<open>e2\<close> at the second. Whether the calls succeed or fail, the ids stay
  distinct: no comment id gets a second row. A row that is there before a call is not
  touched by it: its timestamp is not refreshed. A call that fails leaves the store as
  it was. A call that succeeds gives each of its ids that had no row a row with the
  timestamp of that call, and such a row of the first call keeps its timestamp through
  the second. A call succeeds when the store is open and the engine refuses neither
  its \<^verbatim>\<open>SELECT\<close> nor its \<^verbatim>\<open>INSERT\<close>.
\<close>

theorem IdentifyNewInlineComments_twice:
  assumes "distinct (map CommentId (inline_comments (db ud)))"
    and "distinct (map fst m1)" and "distinct (map fst m2)"
  shows "IdentifyNewInlineComments e1 ud [] = (None, [], ud)
       \<and> (case IdentifyNewInlineComments e1 ud m1 of (err1, rest1, ud1) \<Rightarrow>
            case IdentifyNewInlineComments e2 ud1 m2 of (err2, rest2, ud2) \<Rightarrow>
              distinct (map CommentId (inline_comments (db ud1)))
            \<and> distinct (map CommentId (inline_comments (db ud2)))
            \<and> (\<forall>k. storedUpdatedAt ud k \<noteq> None \<longrightarrow> storedUpdatedAt ud1 k = storedUpdatedAt ud k)
            \<and> (\<forall>k. storedUpdatedAt ud1 k \<noteq> None \<longrightarrow> storedUpdatedAt ud2 k = storedUpdatedAt ud1 k)
            \<and> (err1 \<noteq> None \<longrightarrow> ud1 = ud)
            \<and> (err2 \<noteq> None \<longrightarrow> ud2 = ud1)
            \<and> (err1 = None \<longrightarrow>
                 (\<forall>k t. storedUpdatedAt ud k = None \<and> (k, t) \<in> set m1
                    \<longrightarrow> storedUpdatedAt ud1 k = Some t \<and> storedUpdatedAt ud2 k = Some t))
            \<and> (err2 = None \<longrightarrow>
                 (\<forall>k t. storedUpdatedAt ud1 k = None \<and> (k, t) \<in> set m2
                    \<longrightarrow> storedUpdatedAt ud2 k = Some t))
            \<and> (\<not> closed (db ud)
                 \<and> \<not> refuses e1 (SelectInlineComments (map fst m1))
                 \<and> \<not> refuses e1 (InsertInlineComments
                        (filter (\<lambda>p. fst p \<notin> set (map CommentId (inline_comments (db ud)))) m1))
                 \<longrightarrow> err1 = None)
            \<and> (\<not> closed (db ud1)
                 \<and> \<not> refuses e2 (SelectInlineComments (map fst m2))
                 \<and> \<not> refuses e2 (InsertInlineComments
                        (filter (\<lambda>p. fst p \<notin> set (map CommentId (inline_comments (db ud1)))) m2))
                 \<longrightarrow> err2 = None))"
proof -
  obtain err1 rest1 ud1 where r1: "IdentifyNewInlineComments e1 ud m1 = (err1, rest1, ud1)"
    by (cases "IdentifyNewInlineComments e1 ud m1") auto
  obtain err2 rest2 ud2 where r2: "IdentifyNewInlineComments e2 ud1 m2 = (err2, rest2, ud2)"
    by (cases "IdentifyNewInlineComments e2 ud1 m2") auto
  have err1: "err1 = fst (IdentifyNewInlineComments e1 ud m1)" by (simp add: r1)
  have err2: "err2 = fst (IdentifyNewInlineComments e2 ud1 m2)" by (simp add: r2)
  have ud1: "ud1 = snd (snd (IdentifyNewInlineComments e1 ud m1))" by (simp add: r1)
  have ud2: "ud2 = snd (snd (IdentifyNewInlineComments e2 ud1 m2))" by (simp add: r2)
  have d1: "distinct (map CommentId (inline_comments (db ud1)))"
    unfolding ud1 by (rule Identify_distinct [OF assms(2,1)])
  have d2: "distinct (map CommentId (inline_comments (db ud2)))"
    unfolding ud2 by (rule Identify_distinct [OF assms(3) d1])
  have k1: "\<And>k. storedUpdatedAt ud k \<noteq> None \<Longrightarrow> storedUpdatedAt ud1 k = storedUpdatedAt ud k"
    unfolding ud1 by (rule Identify_keeps_present [OF assms(2)])
  have k2: "\<And>k. storedUpdatedAt ud1 k \<noteq> None \<Longrightarrow> storedUpdatedAt ud2 k = storedUpdatedAt ud1 k"
    unfolding ud2 by (rule Identify_keeps_present [OF assms(3)])
  have f1: "err1 \<noteq> None \<Longrightarrow> ud1 = ud"
    unfolding err1 ud1 by (rule Identify_failure)
  have f2: "err2 \<noteq> None \<Longrightarrow> ud2 = ud1"
    unfolding err2 ud2 by (rule Identify_failure)
  have n1: "\<And>k t. err1 = None \<Longrightarrow> storedUpdatedAt ud k = None \<Longrightarrow> (k, t) \<in> set m1
              \<Longrightarrow> storedUpdatedAt ud1 k = Some t"
    unfolding err1 ud1 by (rule Identify_records_new [OF assms(2)]) simp_all
  have n12: "\<And>k t. err1 = None \<Longrightarrow> storedUpdatedAt ud k = None \<Longrightarrow> (k, t) \<in> set m1
              \<Longrightarrow> storedUpdatedAt ud2 k = Some t"
    using n1 k2 by fastforce
  have n2: "\<And>k t. err2 = None \<Longrightarrow> storedUpdatedAt ud1 k = None \<Longrightarrow> (k, t) \<in> set m2
              \<Longrightarrow> storedUpdatedAt ud2 k = Some t"
    unfolding err2 ud2 by (rule Identify_records_new [OF assms(3)]) simp_all
  have s1: "\<not> closed (db ud) \<Longrightarrow> \<not> refuses e1 (SelectInlineComments (map fst m1))
            \<Longrightarrow> \<not> refuses e1 (InsertInlineComments
                   (filter (\<lambda>p. fst p \<notin> set (map CommentId (inline_comments (db ud)))) m1))
            \<Longrightarrow> err1 = None"
    unfolding err1 by (rule Identify_succeeds [OF assms(2)]) simp_all
  have s2: "\<not> closed (db ud1) \<Longrightarrow> \<not> refuses e2 (SelectInlineComments (map fst m2))
            \<Longrightarrow> \<not> refuses e2 (InsertInlineComments
                   (filter (\<lambda>p. fst p \<notin> set (map CommentId (inline_comments (db ud1)))) m2))
            \<Longrightarrow> err2 = None"
    unfolding err2 by (rule Identify_succeeds [OF assms(3)]) simp_all
  have empty: "IdentifyNewInlineComments e1 ud [] = (None, [], ud)"
    by (simp add: IdentifyNewInlineComments_def)
  have body: "distinct (map CommentId (inline_comments (db ud1)))
            \<and> distinct (map CommentId (inline_comments (db ud2)))
            \<and> (\<forall>k. storedUpdatedAt ud k \<noteq> None \<longrightarrow> storedUpdatedAt ud1 k = storedUpdatedAt ud k)
            \<and> (\<forall>k. storedUpdatedAt ud1 k \<noteq> None \<longrightarrow> storedUpdatedAt ud2 k = storedUpdatedAt ud1 k)
            \<and> (err1 \<noteq> None \<longrightarrow> ud1 = ud)
            \<and> (err2 \<noteq> None \<longrightarrow> ud2 = ud1)
            \<and> (err1 = None \<longrightarrow>
                 (\<forall>k t. storedUpdatedAt ud k = None \<and> (k, t) \<in> set m1
                    \<longrightarrow> storedUpdatedAt ud1 k = Some t \<and> storedUpdatedAt ud2 k = Some t))
            \<and> (err2 = None \<longrightarrow>
                 (\<forall>k t. storedUpdatedAt ud1 k = None \<and> (k, t) \<in> set m2
                    \<longrightarrow> storedUpdatedAt ud2 k = Some t))
            \<and> (\<not> closed (db ud)
                 \<and> \<not> refuses e1 (SelectInlineComments (map fst m1))
                 \<and> \<not> refuses e1 (InsertInlineComments
                        (filter (\<lambda>p. fst p \<notin> set (map CommentId (inline_comments (db ud)))) m1))
                 \<longrightarrow> err1 = None)
            \<and> (\<not> closed (db ud1)
                 \<and> \<not> refuses e2 (SelectInlineComments (map fst m2))
                 \<and> \<not> refuses e2 (InsertInlineComments
                        (filter (\<lambda>p. fst p \<notin> set (map CommentId (inline_comments (db ud1)))) m2))
                 \<longrightarrow> err2 = None)"
    using d1 d2 k1 k2 f1 f2 n1 n12 n2 s1 s2 by (intro conjI allI impI) auto
  show ?thesis
    unfolding r1 r2 prod.case using empty body by (rule conjI)
qed

theorem IdentifyNewInlineComments_twice_witness:
  "distinct (map CommentId (inline_comments (db exampleCommentStore)))
   \<and> distinct (map fst [(''c0'', 7::int), (''c1'', 5)])
   \<and> distinct (map fst [(''c1'', 9::int), (''c2'', 6)])
   \<and> storedUpdatedAt exampleCommentStore ''c0'' = Some 3
   \<and> storedUpdatedAt exampleCommentStore ''c1'' = None
   \<and> fst (IdentifyNewInlineComments exampleBackend exampleCommentStore
            [(''c0'', 7), (''c1'', 5)]) = None
   \<and> storedUpdatedAt
         (snd (snd (IdentifyNewInlineComments exampleBackend
                      (snd (snd (IdentifyNewInlineComments exampleBackend exampleCommentStore
                                   [(''c0'', 7), (''c1'', 5)])))
                      [(''c1'', 9), (''c2'', 6)]))) ''c0'' = Some 3
   \<and> storedUpdatedAt
         (snd (snd (IdentifyNewInlineComments exampleBackend
                      (snd (snd (IdentifyNewInlineComments exampleBackend exampleCommentStore
                                   [(''c0'', 7), (''c1'', 5)])))
                      [(''c1'', 9), (''c2'', 6)]))) ''c1'' = Some 5"
proof -
  have op: "\<not> closed (db exampleCommentStore)"
    and d0: "distinct (map CommentId (inline_comments (db exampleCommentStore)))"
    and s0: "storedUpdatedAt exampleCommentStore ''c0'' = Some 3"
    and s1: "storedUpdatedAt exampleCommentStore ''c1'' = None"
    by (simp_all add: exampleCommentStore_def storedUpdatedAt_def)
  have d1: "distinct (map fst [(''c0'', 7::int), (''c1'', 5)])"
    and d2: "distinct (map fst [(''c1'', 9::int), (''c2'', 6)])"
    by simp_all
  have acc: "\<not> refuses exampleBackend (SelectInlineComments (map fst [(''c0'', 7::int), (''c1'', 5)]))"
    "\<And>m. \<not> refuses exampleBackend (InsertInlineComments m)"
    by (simp_all add: exampleBackend_def)
  obtain err1 rest1 ud1 where
    r1: "IdentifyNewInlineComments exampleBackend exampleCommentStore [(''c0'', 7), (''c1'', 5)]
         = (err1, rest1, ud1)"
    by (cases "IdentifyNewInlineComments exampleBackend exampleCommentStore
                 [(''c0'', 7), (''c1'', 5)]") auto
  obtain err2 rest2 ud2 where
    r2: "IdentifyNewInlineComments exampleBackend ud1 [(''c1'', 9), (''c2'', 6)] = (err2, rest2, ud2)"
    by (cases "IdentifyNewInlineComments exampleBackend ud1 [(''c1'', 9), (''c2'', 6)]") auto
  note th = IdentifyNewInlineComments_twice [OF d0 d1 d2, of exampleBackend exampleBackend,
      unfolded r1 r2 prod.case]
  have e1: "err1 = None"
    using th op acc by blast
  have keep1: "\<forall>k. storedUpdatedAt exampleCommentStore k \<noteq> None
                 \<longrightarrow> storedUpdatedAt ud1 k = storedUpdatedAt exampleCommentStore k"
    and keep2: "\<forall>k. storedUpdatedAt ud1 k \<noteq> None \<longrightarrow> storedUpdatedAt ud2 k = storedUpdatedAt ud1 k"
    and new: "\<forall>k t. storedUpdatedAt exampleCommentStore k = None
                    \<and> (k, t) \<in> set [(''c0'', 7), (''c1'', 5)]
                 \<longrightarrow> storedUpdatedAt ud1 k = Some t \<and> storedUpdatedAt ud2 k = Some t"
    using th e1 by blast+
  have c0: "storedUpdatedAt ud2 ''c0'' = Some 3"
    using keep1 keep2 s0 by simp
  have c1: "storedUpdatedAt ud2 ''c1'' = Some 5"
    using new s1 by simp
  show ?thesis
    using d0 d1 d2 s0 s1 e1 c0 c1 by (simp add: r1 r2)
qed

text \<open>
  Claim C6 as stated fails: recording an id that has a row does not refresh the row's
  timestamp. After \<^verbatim>\<open>c1\<close> is recorded at time 5, recording it again at time 9 leaves
  its row at 5. Both calls succeed.
\<close>

theorem IdentifyNewInlineComments_no_refresh:
  "fst (IdentifyNewInlineComments exampleBackend exampleCommentStore [(''c1'', 5)]) = None
   \<and> storedUpdatedAt
         (snd (snd (IdentifyNewInlineComments exampleBackend exampleCommentStore [(''c1'', 5)])))
        ''c1'' = Some 5
   \<and> fst (IdentifyNewInlineComments exampleBackend
             (snd (snd (IdentifyNewInlineComments exampleBackend exampleCommentStore
                          [(''c1'', 5)])))
             [(''c1'', 9)]) = None
   \<and> storedUpdatedAt
         (snd (snd (IdentifyNewInlineComments exampleBackend
                      (snd (snd (IdentifyNewInlineComments exampleBackend exampleCommentStore
                                   [(''c1'', 5)])))
                      [(''c1'', 9)]))) ''c1'' = Some 5
   \<and> storedUpdatedAt
         (snd (snd (IdentifyNewInlineComments exampleBackend
                      (snd (snd (IdentifyNewInlineComments exampleBackend exampleCommentStore
                                   [(''c1'', 5)])))
                      [(''c1'', 9)]))) ''c1'' \<noteq> Some 9"
  by (simp add: IdentifyNewInlineComments_def selectFoundCommentIDs_def insertInlineComments_def
      exampleBackend_def exampleCommentStore_def storedUpdatedAt_def AList.delete_eq)

text \<open>
  Claim C10. Whenever \<^verbatim>\<open>IdentifyNewInlineComments\<close> returns no error, what it leaves in
  the caller's map is the entries whose id had no row, in their order; these and no
  others are the rows it has appended to the table. So after a successful call the ids
  left in the map are exactly the ids that were newly recorded.
\<close>

theorem IdentifyNewInlineComments_mutates_argument:
  assumes "distinct (map fst commentsByID)"
    and "fst (IdentifyNewInlineComments e ud commentsByID) = None"
  shows "case IdentifyNewInlineComments e ud commentsByID of (err, commentsByID', ud') \<Rightarrow>
           commentsByID'
             = filter (\<lambda>p. fst p \<notin> set (map CommentId (inline_comments (db ud)))) commentsByID
         \<and> inline_comments (db ud')
             = inline_comments (db ud)
               @ map (\<lambda>p. \<lparr>CommentId = fst p, UpdatedAt = snd p\<rparr>) commentsByID'
         \<and> set (map fst commentsByID')
             = set (map CommentId (inline_comments (db ud')))
               - set (map CommentId (inline_comments (db ud)))"
proof -
  let ?rows = "inline_comments (db ud)"
  let ?m' = "filter (\<lambda>p. fst p \<notin> CommentId ` set ?rows) commentsByID"
  obtain err rest ud' where r: "IdentifyNewInlineComments e ud commentsByID = (err, rest, ud')"
    by (cases "IdentifyNewInlineComments e ud commentsByID") auto
  have rest: "rest = ?m'"
    using Identify_success(1) [OF assms] by (simp add: r)
  have rows: "inline_comments (db ud')
              = ?rows @ map (\<lambda>p. \<lparr>CommentId = fst p, UpdatedAt = snd p\<rparr>) ?m'"
    using Identify_success(2) [OF assms] by (simp add: r)
  have disj: "fst ` set ?m' \<inter> CommentId ` set ?rows = {}"
    by auto
  have diff: "fst ` set ?m' = (CommentId ` set ?rows \<union> fst ` set ?m') - CommentId ` set ?rows"
    using disj by blast
  show ?thesis
    using diff by (simp add: r rest rows image_Un image_image)
qed

theorem IdentifyNewInlineComments_mutates_argument_witness:
  "distinct (map fst [(''c0'', 9::int), (''c1'', 4)])
   \<and> fst (IdentifyNewInlineComments exampleBackend exampleCommentStore
            [(''c0'', 9), (''c1'', 4)]) = None
   \<and> fst (snd (IdentifyNewInlineComments exampleBackend exampleCommentStore
                 [(''c0'', 9), (''c1'', 4)]))
       = [(''c1'', 4)]
   \<and> inline_comments (db (snd (snd (IdentifyNewInlineComments exampleBackend exampleCommentStore
                                       [(''c0'', 9), (''c1'', 4)]))))
       = [\<lparr>CommentId = ''c0'', UpdatedAt = 3\<rparr>, \<lparr>CommentId = ''c1'', UpdatedAt = 4\<rparr>]"
proof -
  have d: "distinct (map fst [(''c0'', 9::int), (''c1'', 4)])"
    by simp
  have ok: "fst (IdentifyNewInlineComments exampleBackend exampleCommentStore
                   [(''c0'', 9), (''c1'', 4)]) = None"
    by (simp add: IdentifyNewInlineComments_def selectFoundCommentIDs_def
        insertInlineComments_def exampleBackend_def exampleCommentStore_def AList.delete_eq)
  have rows: "inline_comments (db exampleCommentStore) = [\<lparr>CommentId = ''c0'', UpdatedAt = 3\<rparr>]"
    by (simp add: exampleCommentStore_def)
  obtain err rest ud' where
    r: "IdentifyNewInlineComments exampleBackend exampleCommentStore [(''c0'', 9), (''c1'', 4)]
        = (err, rest, ud')"
    by (cases "IdentifyNewInlineComments exampleBackend exampleCommentStore
                 [(''c0'', 9), (''c1'', 4)]") auto
  have m: "rest = [(''c1'', 4)]"
    and t: "inline_comments (db ud') = [\<lparr>CommentId = ''c0'', UpdatedAt = 3\<rparr>]
              @ map (\<lambda>p. \<lparr>CommentId = fst p, UpdatedAt = snd p\<rparr>) rest"
    using IdentifyNewInlineComments_mutates_argument [OF d ok] by (simp_all add: r rows)
  show ?thesis
    using d ok m t by (simp add: r)
qed

section \<open>Pruning: results\<close>







section \<open>The user mapping: results\<close>

lemma Associate_known:
  "\<not> closed (db ud) \<Longrightarrow> storedChatID ud u \<noteq> None \<Longrightarrow>
   AssociateChatIDWithGerritUser ud u c = (Some SqlUniqueViolation, ud)"
  by (simp add: AssociateChatIDWithGerritUser_def CreateNoReturn_GerritUser_def storedChatID_def)

lemma Associate_unknown:
  "\<not> closed (db ud) \<Longrightarrow> storedChatID ud u = None \<Longrightarrow>
   AssociateChatIDWithGerritUser ud u c =
     (None, ud\<lparr>db := (db ud)\<lparr>gerrit_users :=
                   gerrit_users (db ud) @ [\<lparr>GerritUsername = u, ChatId = c, LastReport = None\<rparr>]\<rparr>,
               cache := (cache ud)(u \<mapsto> c)\<rparr>)"
  by (simp add: AssociateChatIDWithGerritUser_def CreateNoReturn_GerritUser_def storedChatID_def)

lemma find_snoc:
  "find P (xs @ [y]) = (case find P xs of None \<Rightarrow> (if P y then Some y else None) | Some x \<Rightarrow> Some x)"
  by (induction xs) auto

lemma Associate_open:
  "\<not> closed (db ud) \<Longrightarrow> \<not> closed (db (snd (AssociateChatIDWithGerritUser ud u c)))"
  by (cases "storedChatID ud u = None") (simp_all add: Associate_known Associate_unknown)

lemma storedChatID_Associate:
  assumes "\<not> closed (db ud)"
  shows "storedChatID (snd (AssociateChatIDWithGerritUser ud u c)) v =
           (case storedChatID ud v of Some c0 \<Rightarrow> Some c0
            | None \<Rightarrow> if v = u then Some c else None)"
proof (cases "storedChatID ud u = None")
  case True
  then show ?thesis
    using assms
    by (auto simp: Associate_unknown storedChatID_def find_snoc split: option.splits)
next
  case False
  then show ?thesis
    using assms by (auto simp: Associate_known split: option.splits)
qed

lemma cacheAgrees_Associate:
  assumes "\<not> closed (db ud)" and "cacheAgrees ud"
  shows "cacheAgrees (snd (AssociateChatIDWithGerritUser ud u c))"
proof (cases "storedChatID ud u = None")
  case True
  have st: "\<And>v. storedChatID (snd (AssociateChatIDWithGerritUser ud u c)) v =
              (case storedChatID ud v of Some c0 \<Rightarrow> Some c0
               | None \<Rightarrow> if v = u then Some c else None)"
    by (rule storedChatID_Associate [OF assms(1)])
  have ca: "cache (snd (AssociateChatIDWithGerritUser ud u c)) = (cache ud)(u \<mapsto> c)"
    using assms(1) True by (simp add: Associate_unknown)
  show ?thesis
    unfolding cacheAgrees_def
  proof (intro allI impI)
    fix v c'
    assume h: "cache (snd (AssociateChatIDWithGerritUser ud u c)) v = Some c'"
    show "storedChatID (snd (AssociateChatIDWithGerritUser ud u c)) v = Some c'"
    proof (cases "v = u")
      case True
      with h ca have "c' = c" by simp
      with True \<open>storedChatID ud u = None\<close> show ?thesis by (simp add: st)
    next
      case False
      with h ca have "cache ud v = Some c'" by simp
      with assms(2) have "storedChatID ud v = Some c'" by (simp add: cacheAgrees_def)
      then show ?thesis by (simp add: st)
    qed
  qed
next
  case False
  then show ?thesis
    using assms by (simp add: Associate_known)
qed

lemma associateAll_open:
  "\<not> closed (db ud) \<Longrightarrow> \<not> closed (db (associateAll ud calls))"
  by (induction ud calls rule: associateAll.induct) (simp_all add: Associate_open)

lemma associateAll_cacheAgrees:
  "\<not> closed (db ud) \<Longrightarrow> cacheAgrees ud \<Longrightarrow> cacheAgrees (associateAll ud calls)"
  by (induction ud calls rule: associateAll.induct)
     (simp_all add: Associate_open cacheAgrees_Associate)

lemma storedChatID_associateAll:
  "\<not> closed (db ud) \<Longrightarrow>
   storedChatID (associateAll ud calls) v =
     (case storedChatID ud v of Some c0 \<Rightarrow> Some c0 | None \<Rightarrow> map_of calls v)"
proof (induction ud calls rule: associateAll.induct)
  case (1 ud)
  then show ?case by (simp split: option.splits)
next
  case (2 ud u c calls)
  have op: "\<not> closed (db (snd (AssociateChatIDWithGerritUser ud u c)))"
    by (rule Associate_open [OF "2.prems"])
  show ?case
    by (simp add: "2.IH" [OF op] storedChatID_Associate [OF "2.prems"] split: option.splits)
qed

lemma Lookup_agreeing:
  assumes "\<not> closed (db ud)" and "cacheAgrees ud"
  shows "fst (LookupChatIDForGerritUser ud u) =
           (case storedChatID ud u of Some c \<Rightarrow> (c, None) | None \<Rightarrow> ([], Some SqlErrNoRows))"
proof (cases "cache ud u")
  case None
  then show ?thesis
    using assms(1)
    by (simp add: LookupChatIDForGerritUser_def LookupGerritUser_def
        Get_GerritUser_By_GerritUsername_def storedChatID_def split: option.splits)
next
  case (Some c)
  with assms(2) have "storedChatID ud u = Some c" by (simp add: cacheAgrees_def)
  with Some show ?thesis by (simp add: LookupChatIDForGerritUser_def)
qed

lemma cold_cache:
  "cacheAgrees (ud\<lparr>cache := Map.empty\<rparr>)"
  "db (ud\<lparr>cache := Map.empty\<rparr>) = db ud"
  "storedChatID (ud\<lparr>cache := Map.empty\<rparr>) u = storedChatID ud u"
  by (simp_all add: cacheAgrees_def storedChatID_def)

text \<open>
  Claim C5, as amended. On an open store whose cache agrees with the table, after any
  sequence of \<^verbatim>\<open>AssociateChatIDWithGerritUser\<close> calls
  \<^verbatim>\<open>LookupChatIDForGerritUser(u)\<close> returns the chat ID the table held for \<open>u\<close> before
  the calls, or else the one of the first call for \<open>u\<close> (\<open>map_of calls u\<close>), or else
  \<^verbatim>\<open>sql.ErrNoRows\<close>; it returns the same with the cache emptied first. One call for a
  user the table knows fails on the key and changes nothing; one for a user it does not
  know succeeds and stores the chat ID.
\<close>

theorem Lookup_after_associations:
  assumes "\<not> closed (db ud)" and "cacheAgrees ud"
  shows "fst (LookupChatIDForGerritUser (associateAll ud calls) u) =
           (case storedChatID ud u of
              Some c0 \<Rightarrow> (c0, None)
            | None \<Rightarrow> (case map_of calls u of
                         Some c \<Rightarrow> (c, None)
                       | None \<Rightarrow> ([], Some SqlErrNoRows)))
       \<and> fst (LookupChatIDForGerritUser ((associateAll ud calls)\<lparr>cache := Map.empty\<rparr>) u) =
           fst (LookupChatIDForGerritUser (associateAll ud calls) u)
       \<and> (storedChatID ud u \<noteq> None \<longrightarrow>
            AssociateChatIDWithGerritUser ud u c = (Some SqlUniqueViolation, ud))
       \<and> (storedChatID ud u = None \<longrightarrow>
            fst (AssociateChatIDWithGerritUser ud u c) = None
            \<and> storedChatID (snd (AssociateChatIDWithGerritUser ud u c)) u = Some c)"
proof -
  let ?ud' = "associateAll ud calls"
  have op: "\<not> closed (db ?ud')"
    by (rule associateAll_open [OF assms(1)])
  have ag: "cacheAgrees ?ud'"
    by (rule associateAll_cacheAgrees [OF assms])
  have warm: "fst (LookupChatIDForGerritUser ?ud' u) =
           (case storedChatID ?ud' u of Some c \<Rightarrow> (c, None) | None \<Rightarrow> ([], Some SqlErrNoRows))"
    by (rule Lookup_agreeing [OF op ag])
  have opc: "\<not> closed (db (?ud'\<lparr>cache := Map.empty\<rparr>))"
    using op by simp
  have cold: "fst (LookupChatIDForGerritUser (?ud'\<lparr>cache := Map.empty\<rparr>) u) =
           (case storedChatID ?ud' u of Some c \<Rightarrow> (c, None) | None \<Rightarrow> ([], Some SqlErrNoRows))"
    using Lookup_agreeing [OF opc cold_cache(1)] by (simp add: cold_cache(3))
  have st: "storedChatID ?ud' u =
     (case storedChatID ud u of Some c0 \<Rightarrow> Some c0 | None \<Rightarrow> map_of calls u)"
    by (rule storedChatID_associateAll [OF assms(1)])
  have a: "fst (LookupChatIDForGerritUser ?ud' u) =
           (case storedChatID ud u of
              Some c0 \<Rightarrow> (c0, None)
            | None \<Rightarrow> (case map_of calls u of
                         Some c \<Rightarrow> (c, None)
                       | None \<Rightarrow> ([], Some SqlErrNoRows)))"
    by (simp add: warm st split: option.splits)
  have b: "fst (LookupChatIDForGerritUser (?ud'\<lparr>cache := Map.empty\<rparr>) u) =
           fst (LookupChatIDForGerritUser ?ud' u)"
    by (simp add: warm cold)
  have c1: "storedChatID ud u \<noteq> None \<longrightarrow>
            AssociateChatIDWithGerritUser ud u c = (Some SqlUniqueViolation, ud)"
    using Associate_known [OF assms(1)] by simp
  have c2: "storedChatID ud u = None \<longrightarrow>
            fst (AssociateChatIDWithGerritUser ud u c) = None
            \<and> storedChatID (snd (AssociateChatIDWithGerritUser ud u c)) u = Some c"
  proof
    assume n: "storedChatID ud u = None"
    have "fst (AssociateChatIDWithGerritUser ud u c) = None"
      by (simp add: Associate_unknown [OF assms(1) n])
    moreover have "storedChatID (snd (AssociateChatIDWithGerritUser ud u c)) u = Some c"
      by (simp only: storedChatID_Associate [OF assms(1)] n) simp
    ultimately show "fst (AssociateChatIDWithGerritUser ud u c) = None
            \<and> storedChatID (snd (AssociateChatIDWithGerritUser ud u c)) u = Some c"
      by simp
  qed
  from a b c1 c2 show ?thesis by blast
qed

theorem Lookup_after_associations_witness:
  "\<not> closed (db emptyStore) \<and> cacheAgrees emptyStore
   \<and> storedChatID emptyStore ''alice'' = None
   \<and> fst (LookupChatIDForGerritUser
            (associateAll emptyStore [(''alice'', ''U1''), (''bob'', ''U7''), (''alice'', ''U2'')])
            ''alice'') = (''U1'', None)
   \<and> fst (LookupChatIDForGerritUser
            ((associateAll emptyStore [(''alice'', ''U1''), (''bob'', ''U7''), (''alice'', ''U2'')])
               \<lparr>cache := Map.empty\<rparr>)
            ''alice'') = (''U1'', None)"
proof -
  have op: "\<not> closed (db emptyStore)"
    and ag: "cacheAgrees emptyStore"
    and st: "storedChatID emptyStore ''alice'' = None"
    by (simp_all add: emptyStore_def cacheAgrees_def storedChatID_def)
  show ?thesis
    using op ag st
      Lookup_after_associations [OF op ag,
        of "[(''alice'', ''U1''), (''bob'', ''U7''), (''alice'', ''U2'')]" "''alice''"]
    by simp
qed

text \<open>
  Claim C5 as stated fails: the chat ID of a known user is not updated by a later
  association. After \<^verbatim>\<open>alice\<close> is associated with \<^verbatim>\<open>U1\<close> and then with \<^verbatim>\<open>U2\<close>, the
  second call returns the key violation and the lookup gives \<^verbatim>\<open>U1\<close>, the first and
  not the last, with the cache as left and with the cache emptied.
\<close>

theorem Lookup_returns_first_association:
  "fst (AssociateChatIDWithGerritUser emptyStore ''alice'' ''U1'') = None
   \<and> fst (AssociateChatIDWithGerritUser
            (snd (AssociateChatIDWithGerritUser emptyStore ''alice'' ''U1'')) ''alice'' ''U2'')
       = Some SqlUniqueViolation
   \<and> fst (LookupChatIDForGerritUser
            (associateAll emptyStore [(''alice'', ''U1''), (''alice'', ''U2'')]) ''alice'')
       = (''U1'', None)
   \<and> fst (LookupChatIDForGerritUser
            ((associateAll emptyStore [(''alice'', ''U1''), (''alice'', ''U2'')])
               \<lparr>cache := Map.empty\<rparr>) ''alice'')
       = (''U1'', None)
   \<and> ''U1'' \<noteq> ''U2''"
  by (simp add: emptyStore_def AssociateChatIDWithGerritUser_def CreateNoReturn_GerritUser_def
      LookupChatIDForGerritUser_def LookupGerritUser_def Get_GerritUser_By_GerritUsername_def)

section \<open>Registration: results\<close>

lemma ContainsAny_space_newline:
  "ContainsAny s [CHR '' '', CHR 0x0A] \<longleftrightarrow> CHR '' '' \<in> set s \<or> CHR 0x0A \<in> set s"
  by (auto simp: ContainsAny_def list_ex_iff)

lemma ContainsAny_newline:
  "ContainsAny s [CHR 0x0A] \<longleftrightarrow> CHR 0x0A \<in> set s"
  by (auto simp: ContainsAny_def list_ex_iff)

lemma NewTeam_active:
  "teams g teamID \<noteq> None \<Longrightarrow> NewTeam g io teamID sd = (Some TeamAlreadyActive, g)"
  by (simp add: NewTeam_def)

lemma NewTeam_invalid_id:
  "teams g teamID = None \<Longrightarrow> CHR '' '' \<in> set teamID \<or> CHR 0x0A \<in> set teamID \<Longrightarrow>
   NewTeam g io teamID sd = (Some InvalidTeamID, g)"
  by (simp add: NewTeam_def ContainsAny_space_newline)

lemma NewTeam_invalid_setup:
  "teams g teamID = None \<Longrightarrow> CHR '' '' \<notin> set teamID \<Longrightarrow> CHR 0x0A \<notin> set teamID \<Longrightarrow>
   CHR 0x0A \<in> set sd \<Longrightarrow>
   NewTeam g io teamID sd = (Some InvalidSetupData, g)"
  by (simp add: NewTeam_def ContainsAny_space_newline ContainsAny_newline)

lemma NewTeam_ok:
  "teams g teamID = None \<Longrightarrow> CHR '' '' \<notin> set teamID \<Longrightarrow> CHR 0x0A \<notin> set teamID \<Longrightarrow>
   CHR 0x0A \<notin> set sd \<Longrightarrow>
   NewTeam g FileOk teamID sd =
     (None, g\<lparr>teamFileContents := Some (teamFileText g @ teamID @ '' '' @ sd @ [CHR 0x0A]),
              teams := (teams g)(teamID \<mapsto> newTeamValue teamID sd)\<rparr>)"
  by (simp add: NewTeam_def ContainsAny_space_newline ContainsAny_newline
      appendTeamDefinition_def teamFileText_def)

lemma NewTeam_failure_keeps_map:
  "fst (NewTeam g io teamID sd) \<noteq> None \<Longrightarrow> teams (snd (NewTeam g io teamID sd)) = teams g"
  by (auto simp: NewTeam_def appendTeamDefinition_def Let_def split: if_splits FileOutcome.splits)

lemma NewTeam_validation_failure_keeps_all:
  "fst (NewTeam g io teamID sd) \<in> {Some TeamAlreadyActive, Some InvalidTeamID, Some InvalidSetupData}
   \<Longrightarrow> snd (NewTeam g io teamID sd) = g"
  by (auto simp: NewTeam_def appendTeamDefinition_def Let_def split: if_splits FileOutcome.splits)

text \<open>
  Claim C1, as amended. \<^verbatim>\<open>NewTeam\<close> fails with "already active" when the map holds the
  id; otherwise with "invalid team ID" when the id has a space or a newline; otherwise
  with "invalid setup data" when the setup data has a newline. Whenever it fails the map
  is as before, and after each of these three failures the team file is as before too.
  For an id that is not active and passes the checks, with the append to the file going
  well, the call succeeds, puts the team into the map and appends exactly
  \<^verbatim>\<open><id> <setupData>\<close> and a newline; a second call for the id made right after it,
  whatever its setup data and whatever the file system does, fails with "already active"
  and changes nothing.
\<close>

theorem NewTeam_register:
  "(teams g teamID \<noteq> None \<longrightarrow> NewTeam g io teamID sd = (Some TeamAlreadyActive, g))
   \<and> (teams g teamID = None \<and> (CHR '' '' \<in> set teamID \<or> CHR 0x0A \<in> set teamID)
        \<longrightarrow> NewTeam g io teamID sd = (Some InvalidTeamID, g))
   \<and> (teams g teamID = None \<and> CHR '' '' \<notin> set teamID \<and> CHR 0x0A \<notin> set teamID
        \<and> CHR 0x0A \<in> set sd
        \<longrightarrow> NewTeam g io teamID sd = (Some InvalidSetupData, g))
   \<and> (fst (NewTeam g io teamID sd) \<noteq> None \<longrightarrow> teams (snd (NewTeam g io teamID sd)) = teams g)
   \<and> (fst (NewTeam g io teamID sd)
          \<in> {Some TeamAlreadyActive, Some InvalidTeamID, Some InvalidSetupData}
        \<longrightarrow> snd (NewTeam g io teamID sd) = g)
   \<and> (teams g teamID = None \<and> CHR '' '' \<notin> set teamID \<and> CHR 0x0A \<notin> set teamID
        \<and> CHR 0x0A \<notin> set sd
        \<longrightarrow> fst (NewTeam g FileOk teamID sd) = None
          \<and> teams (snd (NewTeam g FileOk teamID sd)) teamID = Some (newTeamValue teamID sd)
          \<and> teamFileText (snd (NewTeam g FileOk teamID sd))
              = teamFileText g @ teamID @ '' '' @ sd @ [CHR 0x0A]
          \<and> NewTeam (snd (NewTeam g FileOk teamID sd)) io' teamID sd'
              = (Some TeamAlreadyActive, snd (NewTeam g FileOk teamID sd)))"
proof -
  have last: "teams g teamID = None \<and> CHR '' '' \<notin> set teamID \<and> CHR 0x0A \<notin> set teamID
        \<and> CHR 0x0A \<notin> set sd
        \<longrightarrow> fst (NewTeam g FileOk teamID sd) = None
          \<and> teams (snd (NewTeam g FileOk teamID sd)) teamID = Some (newTeamValue teamID sd)
          \<and> teamFileText (snd (NewTeam g FileOk teamID sd))
              = teamFileText g @ teamID @ '' '' @ sd @ [CHR 0x0A]
          \<and> NewTeam (snd (NewTeam g FileOk teamID sd)) io' teamID sd'
              = (Some TeamAlreadyActive, snd (NewTeam g FileOk teamID sd))"
  proof
    assume h: "teams g teamID = None \<and> CHR '' '' \<notin> set teamID \<and> CHR 0x0A \<notin> set teamID
        \<and> CHR 0x0A \<notin> set sd"
    then have ok: "NewTeam g FileOk teamID sd =
        (None, g\<lparr>teamFileContents := Some (teamFileText g @ teamID @ '' '' @ sd @ [CHR 0x0A]),
                 teams := (teams g)(teamID \<mapsto> newTeamValue teamID sd)\<rparr>)"
      by (simp add: NewTeam_ok)
    have act: "teams (snd (NewTeam g FileOk teamID sd)) teamID \<noteq> None"
      by (simp add: ok)
    show "fst (NewTeam g FileOk teamID sd) = None
          \<and> teams (snd (NewTeam g FileOk teamID sd)) teamID = Some (newTeamValue teamID sd)
          \<and> teamFileText (snd (NewTeam g FileOk teamID sd))
              = teamFileText g @ teamID @ '' '' @ sd @ [CHR 0x0A]
          \<and> NewTeam (snd (NewTeam g FileOk teamID sd)) io' teamID sd'
              = (Some TeamAlreadyActive, snd (NewTeam g FileOk teamID sd))"
      using NewTeam_active [OF act] by (simp add: ok teamFileText_def)
  qed
  show ?thesis
    using NewTeam_active [of g teamID io sd] NewTeam_invalid_id [of g teamID io sd]
      NewTeam_invalid_setup [of g teamID sd io] NewTeam_failure_keeps_map [of g io teamID sd]
      NewTeam_validation_failure_keeps_all [of g io teamID sd] last
    by blast
qed

theorem NewTeam_register_witness:
  "teams emptyGovernor ''t1'' = None
   \<and> CHR '' '' \<notin> set ''t1'' \<and> CHR 0x0A \<notin> set ''t1'' \<and> CHR 0x0A \<notin> set ''s1''
   \<and> fst (NewTeam emptyGovernor FileOk ''t1'' ''s1'') = None
   \<and> teamFileText (snd (NewTeam emptyGovernor FileOk ''t1'' ''s1'')) = ''t1 s1'' @ [CHR 0x0A]
   \<and> NewTeam (snd (NewTeam emptyGovernor FileOk ''t1'' ''s1'')) FileOk ''t1'' ''s2''
       = (Some TeamAlreadyActive, snd (NewTeam emptyGovernor FileOk ''t1'' ''s1''))
   \<and> CHR '' '' \<in> set ''a b''
   \<and> NewTeam emptyGovernor FileOk ''a b'' ''s1'' = (Some InvalidTeamID, emptyGovernor)
   \<and> CHR 0x0A \<in> set (''s'' @ [CHR 0x0A])
   \<and> NewTeam emptyGovernor FileOk ''t1'' (''s'' @ [CHR 0x0A]) = (Some InvalidSetupData, emptyGovernor)"
proof -
  have none: "\<And>k. teams emptyGovernor k = None"
    and ftxt: "teamFileText emptyGovernor = []"
    by (simp_all add: emptyGovernor_def teamFileText_def)
  show ?thesis
    using none ftxt
      NewTeam_register [of emptyGovernor "''t1''" FileOk "''s1''" FileOk "''s2''"]
      NewTeam_register [of emptyGovernor "''a b''" FileOk "''s1''"]
      NewTeam_register [of emptyGovernor "''t1''" FileOk "''s'' @ [CHR 0x0A]"]
    by simp
qed

text \<open>
  Claim C1 as stated fails in three places. An id with a tab, which is white space, is
  accepted. Two calls for the id \<^verbatim>\<open>a b\<close> both fail, so not exactly one succeeds, and the
  file is never created. And two calls for \<^verbatim>\<open>t1\<close> with an uninstall between them both
  succeed, leaving two lines for \<^verbatim>\<open>t1\<close> in the file.
\<close>

theorem NewTeam_not_as_claimed:
  "CHR 0x09 \<in> set (''a'' @ [CHR 0x09] @ ''b'')
   \<and> fst (NewTeam emptyGovernor FileOk (''a'' @ [CHR 0x09] @ ''b'') ''s1'') = None
   \<and> fst (NewTeam emptyGovernor FileOk ''a b'' ''s1'') = Some InvalidTeamID
   \<and> fst (NewTeam (snd (NewTeam emptyGovernor FileOk ''a b'' ''s1'')) FileOk ''a b'' ''s1'')
       = Some InvalidTeamID
   \<and> teamFileContents
        (snd (NewTeam (snd (NewTeam emptyGovernor FileOk ''a b'' ''s1'')) FileOk ''a b'' ''s1''))
       = None
   \<and> fst (NewTeam emptyGovernor FileOk ''t1'' ''s1'') = None
   \<and> fst (NewTeam
            (fst (handleChatEvent (snd (NewTeam emptyGovernor FileOk ''t1'' ''s1'')) ''t1''
                    ChatErrStopTeam))
            FileOk ''t1'' ''s1'') = None
   \<and> teamFileContents
        (snd (NewTeam
                (fst (handleChatEvent (snd (NewTeam emptyGovernor FileOk ''t1'' ''s1'')) ''t1''
                        ChatErrStopTeam))
                FileOk ''t1'' ''s1''))
       = Some (''t1 s1'' @ [CHR 0x0A] @ ''t1 s1'' @ [CHR 0x0A])"
  by (simp add: NewTeam_def ContainsAny_def appendTeamDefinition_def emptyGovernor_def
      handleChatEvent_def)

section \<open>Registration and reload: results\<close>

lemmas readTeamFile_eval =
  readTeamFile_def MaxScanTokenSize_def dropCR_def TrimSpace_def trimLeft.simps
  leadingSpace_def isAsciiSpace_def unicodeSpaces_def SplitN2_def

text \<open>
  Claim C2 at the failing input: \<^verbatim>\<open>NewTeam("t1", "")\<close> succeeds and appends the line
  \<^verbatim>\<open>t1\<close>, a space and a newline; \<^verbatim>\<open>readTeamFile\<close> trims the line to \<^verbatim>\<open>t1\<close>, finds no
  space in it and fails, and so does \<^verbatim>\<open>NewGovernor\<close>: the team is not running after the
  reload, and no team of the file is.
\<close>

theorem NewTeam_empty_setup_breaks_reload:
  "fst (NewTeam emptyGovernor FileOk ''t1'' []) = None
   \<and> teams (snd (NewTeam emptyGovernor FileOk ''t1'' [])) ''t1'' = Some (newTeamValue ''t1'' [])
   \<and> teamFileContents (snd (NewTeam emptyGovernor FileOk ''t1'' [])) = Some ''t1 \<newline>''
   \<and> readTeamFile (teamFileContents (snd (NewTeam emptyGovernor FileOk ''t1'' [])))
       = Inl InvalidTeamDefinitionLine
   \<and> NewGovernor (teamFileContents (snd (NewTeam emptyGovernor FileOk ''t1'' [])))
       = Inl InvalidTeamDefinitionLine"
proof -
  have reg: "NewTeam emptyGovernor FileOk ''t1'' [] =
      (None, \<lparr>teams = [''t1'' \<mapsto> newTeamValue ''t1'' []],
               teamFileContents = Some ''t1 \<newline>''\<rparr>)"
    by (simp add: NewTeam_def ContainsAny_def appendTeamDefinition_def emptyGovernor_def)
  have rd: "readTeamFile (Some ''t1 \<newline>'') = Inl InvalidTeamDefinitionLine"
    by (simp add: readTeamFile_eval)
  show ?thesis
    by (simp add: reg rd NewGovernor_def)
qed

text \<open>
  The example of the specification does reload: \<^verbatim>\<open>t1\<close> registered with \<^verbatim>\<open>s1\<close> is in
  the map of the governor built from the file, with the same setup data, and the file
  is not written again.
\<close>

lemma reload_t1_s1:
  "fst (NewTeam emptyGovernor FileOk ''t1'' ''s1'') = None
   \<and> teamFileContents (snd (NewTeam emptyGovernor FileOk ''t1'' ''s1''))
       = Some ''t1 s1\<newline>''
   \<and> readTeamFile (Some ''t1 s1\<newline>'') = Inr [(''t1'', ''s1'')]
   \<and> (case NewGovernor (Some ''t1 s1\<newline>'') of
         Inl err \<Rightarrow> False
       | Inr g \<Rightarrow> teams g ''t1'' = Some (newTeamValue ''t1'' ''s1'')
                 \<and> teamFileContents g = Some ''t1 s1\<newline>'')"
proof -
  have rd: "readTeamFile (Some ''t1 s1\<newline>'') = Inr [(''t1'', ''s1'')]"
    by (simp add: readTeamFile_eval)
  show ?thesis
    by (simp add: rd NewGovernor_def StartTeam_def NewTeam_def ContainsAny_def
        appendTeamDefinition_def emptyGovernor_def)
qed

text \<open>
  Two more registrations the reload does not give back: an id that starts with
  \<^verbatim>\<open>#\<close> is read as a comment, and white space at the end of the setup data is
  trimmed off.
\<close>

lemma reload_other_losses:
  "fst (NewTeam emptyGovernor FileOk ''#t1'' ''s1'') = None
   \<and> readTeamFile (teamFileContents (snd (NewTeam emptyGovernor FileOk ''#t1'' ''s1''))) = Inr []
   \<and> fst (NewTeam emptyGovernor FileOk ''t1'' ''s1 '') = None
   \<and> readTeamFile (teamFileContents (snd (NewTeam emptyGovernor FileOk ''t1'' ''s1 '')))
       = Inr [(''t1'', ''s1'')]"
proof -
  have r1: "NewTeam emptyGovernor FileOk ''#t1'' ''s1'' =
      (None, \<lparr>teams = [''#t1'' \<mapsto> newTeamValue ''#t1'' ''s1''],
               teamFileContents = Some ''#t1 s1\<newline>''\<rparr>)"
    by (simp add: NewTeam_def ContainsAny_def appendTeamDefinition_def emptyGovernor_def)
  have r2: "NewTeam emptyGovernor FileOk ''t1'' ''s1 '' =
      (None, \<lparr>teams = [''t1'' \<mapsto> newTeamValue ''t1'' ''s1 ''],
               teamFileContents = Some ''t1 s1 \<newline>''\<rparr>)"
    by (simp add: NewTeam_def ContainsAny_def appendTeamDefinition_def emptyGovernor_def)
  have d1: "readTeamFile (Some ''#t1 s1\<newline>'') = Inr []"
    by (simp add: readTeamFile_eval)
  have d2: "readTeamFile (Some ''t1 s1 \<newline>'') = Inr [(''t1'', ''s1'')]"
    by (simp add: readTeamFile_eval)
  show ?thesis
    by (simp add: r1 r2 d1 d2)
qed

text \<open>Empty lines and comment lines are skipped; a line with no space fails the load.\<close>

lemma readTeamFile_ignored_and_malformed:
  "readTeamFile (Some ''# comment\<newline>\<newline>t1 s1\<newline>'')
     = Inr [(''t1'', ''s1'')]
   \<and> readTeamFile (Some ''t1 s1\<newline>nospace\<newline>'')
     = Inl InvalidTeamDefinitionLine"
  by (simp add: readTeamFile_eval)

section \<open>Teams: results\<close>

lemma canceler_newTeamValue: "canceler (newTeamValue teamID sd) = None"
  by (simp add: newTeamValue_def)

lemma canceler_RunStart: "canceler (teamOf t (RunStart env t)) = canceler t"
  by (simp add: RunStart_def)

lemma Close_nil_canceler: "canceler t = None \<Longrightarrow> Close t = Inl NilFuncCall"
  by (simp add: Close_def)

text \<open>
  Claim C4 at the failing input: no statement of the program assigns \<^verbatim>\<open>t.canceler\<close>,
  so for the team \<^verbatim>\<open>StartTeam\<close> builds, before \<^verbatim>\<open>Run\<close> and after its start-up has
  gone well or failed, \<^verbatim>\<open>Close\<close> calls a nil function and panics; so does \<^verbatim>\<open>Run\<close>
  itself when the report loops end and it calls \<^verbatim>\<open>t.Close()\<close>.
\<close>

theorem Close_panics:
  "teams (snd (StartTeam emptyGovernor ''t1'' ''{}'')) ''t1'' = Some (newTeamValue ''t1'' ''{}'')
   \<and> Close (newTeamValue ''t1'' ''{}'') = Inl NilFuncCall
   \<and> RunStart workingEnv (newTeamValue ''t1'' ''{}'')
       = Waiting ((newTeamValue ''t1'' ''{}'')
                    \<lparr>teamApp := Some \<lparr>appSetupData = ''{}'', appClosed = False\<rparr>\<rparr>)
   \<and> Close ((newTeamValue ''t1'' ''{}'')
               \<lparr>teamApp := Some \<lparr>appSetupData = ''{}'', appClosed = False\<rparr>\<rparr>)
       = Inl NilFuncCall
   \<and> RunFinish ((newTeamValue ''t1'' ''{}'')
                   \<lparr>teamApp := Some \<lparr>appSetupData = ''{}'', appClosed = False\<rparr>\<rparr>)
       = Panicked NilFuncCall
   \<and> Close (teamOf (newTeamValue ''t1'' ''{}'') (RunStart failingSlack (newTeamValue ''t1'' ''{}'')))
       = Inl NilFuncCall"
  by (simp add: StartTeam_def emptyGovernor_def newTeamValue_def Close_def RunStart_def
      RunFinish_def workingEnv_def failingSlack_def)

lemma runTeamStart_dom: "dom (teams (runTeamStart env g teamID)) = dom (teams g)"
  by (auto simp: runTeamStart_def split: option.splits)

lemma RunStart_Returned_error:
  "RunStart env t = Returned t' \<Longrightarrow> runError t' \<noteq> None"
  by (auto simp: RunStart_def split: if_splits)

text \<open>
  Claim C3, as amended. The start-up of a team's \<^verbatim>\<open>Run\<close>, failing or not, removes no
  team from the map: when it fails, the entry stays and holds the error in
  \<^verbatim>\<open>runError\<close>. A chat event that ends with \<^verbatim>\<open>slack.ErrStopTeam\<close> removes the team
  from the map, leaves every other entry, and calls \<^verbatim>\<open>Close\<close> on the team's app; any
  other result of a chat event changes nothing.
\<close>

theorem teams_removed_only_on_uninstall:
  "dom (teams (runTeamStart env g teamID)) = dom (teams g)
   \<and> (\<forall>t t'. teams g teamID = Some t \<and> RunStart env t = Returned t'
         \<longrightarrow> teams (runTeamStart env g teamID) teamID = Some t' \<and> runError t' \<noteq> None)
   \<and> (\<forall>t. teams g teamID = Some t
         \<longrightarrow> teams (fst (handleChatEvent g teamID ChatErrStopTeam)) teamID = None
           \<and> (\<forall>other. other \<noteq> teamID
                 \<longrightarrow> teams (fst (handleChatEvent g teamID ChatErrStopTeam)) other = teams g other)
           \<and> snd (handleChatEvent g teamID ChatErrStopTeam) = Some (AppClose (teamApp t)))
   \<and> (res \<noteq> ChatErrStopTeam \<longrightarrow> handleChatEvent g teamID res = (g, None))"
proof -
  have a: "dom (teams (runTeamStart env g teamID)) = dom (teams g)"
    by (rule runTeamStart_dom)
  have b: "\<forall>t t'. teams g teamID = Some t \<and> RunStart env t = Returned t'
         \<longrightarrow> teams (runTeamStart env g teamID) teamID = Some t' \<and> runError t' \<noteq> None"
    using RunStart_Returned_error by (auto simp: runTeamStart_def)
  have c: "\<forall>t. teams g teamID = Some t
         \<longrightarrow> teams (fst (handleChatEvent g teamID ChatErrStopTeam)) teamID = None
           \<and> (\<forall>other. other \<noteq> teamID
                 \<longrightarrow> teams (fst (handleChatEvent g teamID ChatErrStopTeam)) other = teams g other)
           \<and> snd (handleChatEvent g teamID ChatErrStopTeam) = Some (AppClose (teamApp t))"
    by (simp add: handleChatEvent_def)
  have d: "res \<noteq> ChatErrStopTeam \<longrightarrow> handleChatEvent g teamID res = (g, None)"
    by (simp add: handleChatEvent_def split: option.splits)
  from a b c d show ?thesis by blast
qed

theorem teams_removed_only_on_uninstall_witness:
  "teams (snd (StartTeam emptyGovernor ''t1'' ''{}'')) ''t1'' = Some (newTeamValue ''t1'' ''{}'')
   \<and> RunStart failingSlack (newTeamValue ''t1'' ''{}'')
       = Returned ((newTeamValue ''t1'' ''{}'')\<lparr>runError := Some CouldNotInitializeSlack\<rparr>)
   \<and> teams (runTeamStart failingSlack (snd (StartTeam emptyGovernor ''t1'' ''{}'')) ''t1'') ''t1''
       = Some ((newTeamValue ''t1'' ''{}'')\<lparr>runError := Some CouldNotInitializeSlack\<rparr>)
   \<and> teams (fst (handleChatEvent (snd (StartTeam emptyGovernor ''t1'' ''{}'')) ''t1''
                    ChatErrStopTeam)) ''t1'' = None
   \<and> ChatNil \<noteq> ChatErrStopTeam
   \<and> handleChatEvent (snd (StartTeam emptyGovernor ''t1'' ''{}'')) ''t1'' ChatNil
       = (snd (StartTeam emptyGovernor ''t1'' ''{}''), None)"
proof -
  let ?g = "snd (StartTeam emptyGovernor ''t1'' ''{}'')"
  have t: "teams ?g ''t1'' = Some (newTeamValue ''t1'' ''{}'')"
    by (simp add: StartTeam_def emptyGovernor_def)
  have r: "RunStart failingSlack (newTeamValue ''t1'' ''{}'')
       = Returned ((newTeamValue ''t1'' ''{}'')\<lparr>runError := Some CouldNotInitializeSlack\<rparr>)"
    by (simp add: RunStart_def failingSlack_def)
  show ?thesis
    using t r
      teams_removed_only_on_uninstall [of failingSlack ?g "''t1''" ChatNil]
    by simp
qed

text \<open>
  Claim C3 as stated fails: a team whose setup data \<^verbatim>\<open>slack.NewSlackInterface\<close> rejects
  is still in the map after its \<^verbatim>\<open>Run\<close> has returned with the error.
\<close>

theorem failed_team_stays_in_map:
  "fst (StartTeam emptyGovernor ''t1'' ''not json'') = None
   \<and> teams (runTeamStart failingSlack (snd (StartTeam emptyGovernor ''t1'' ''not json'')) ''t1'')
        ''t1''
       = Some \<lparr>id' = ''t1'', canceler = None, teamApp = None, setupData = ''not json'',
               runError = Some CouldNotInitializeSlack\<rparr>"
  by (simp add: StartTeam_def emptyGovernor_def runTeamStart_def RunStart_def failingSlack_def
      newTeamValue_def)

section \<open>Reload after registration: the general case\<close>

lemma scanLines_last_line:
  "CHR 0x0A \<notin> set l \<Longrightarrow> length cur + length l < MaxScanTokenSize \<Longrightarrow>
   scanLines cur (l @ [CHR 0x0A]) = ([dropCR (rev cur @ l)], False)"
proof (induction l arbitrary: cur)
  case Nil
  then show ?case by simp
next
  case (Cons c l)
  have c: "c \<noteq> CHR 0x0A" using Cons.prems(1) by auto
  have fits: "\<not> MaxScanTokenSize \<le> length (c # cur)" using Cons.prems(2) by simp
  have "scanLines (c # cur) (l @ [CHR 0x0A]) = ([dropCR (rev (c # cur) @ l)], False)"
    using Cons.prems by (intro Cons.IH) auto
  then show ?case using c fits by simp
qed

lemma scanLines_append_line:
  "old \<noteq> [] \<Longrightarrow> last old = CHR 0x0A \<Longrightarrow> scanLines cur old = (ls, False) \<Longrightarrow>
   CHR 0x0A \<notin> set l \<Longrightarrow> length l < MaxScanTokenSize \<Longrightarrow>
   scanLines cur (old @ l @ [CHR 0x0A]) = (ls @ [dropCR l], False)"
proof (induction old arbitrary: cur ls)
  case Nil
  then show ?case by simp
next
  case (Cons c cs)
  show ?case
  proof (cases "c = CHR 0x0A")
    case True
    obtain ls' t' where r: "scanLines [] cs = (ls', t')" by (cases "scanLines [] cs") auto
    from Cons.prems(3) True r have ls: "ls = dropCR (rev cur) # ls'" and t': "t' = False"
      by auto
    show ?thesis
    proof (cases "cs = []")
      case True
      with r have "ls' = []" by simp
      moreover have "scanLines [] (l @ [CHR 0x0A]) = ([dropCR l], False)"
        using scanLines_last_line [of l "[]"] Cons.prems(4,5) by simp
      ultimately show ?thesis using \<open>c = CHR 0x0A\<close> \<open>cs = []\<close> ls by simp
    next
      case False
      then have "last cs = CHR 0x0A" using Cons.prems(2) by simp
      then have "scanLines [] (cs @ l @ [CHR 0x0A]) = (ls' @ [dropCR l], False)"
        using False r t' Cons.prems(4,5) by (intro Cons.IH) auto
      then show ?thesis using True ls by simp
    qed
  next
    case False
    have fits: "\<not> MaxScanTokenSize \<le> length (c # cur)"
      using Cons.prems(3) False by (auto split: if_splits)
    then have r: "scanLines (c # cur) cs = (ls, False)"
      using Cons.prems(3) False by simp
    have ne: "cs \<noteq> []" using Cons.prems(2) False by auto
    then have "last cs = CHR 0x0A" using Cons.prems(2) by simp
    then have "scanLines (c # cur) (cs @ l @ [CHR 0x0A]) = (ls @ [dropCR l], False)"
      using ne r Cons.prems(4,5) by (intro Cons.IH) auto
    then show ?thesis using False fits by simp
  qed
qed

lemma readTeamLines_append:
  "readTeamLines teamData (ls @ [x]) =
     (case readTeamLines teamData ls of Inl err \<Rightarrow> Inl err
      | Inr teamData' \<Rightarrow> readTeamLines teamData' [x])"
  by (induction teamData ls rule: readTeamLines.induct) (auto simp: Let_def)

lemma readTeamFile_append_line:
  assumes "readTeamFile (Some old) = Inr teamData"
    and "old = [] \<or> last old = CHR 0x0A"
    and "CHR 0x0A \<notin> set l" and "length l < MaxScanTokenSize"
  shows "readTeamFile (Some (old @ l @ [CHR 0x0A])) = readTeamLines teamData [dropCR l]"
proof (cases "old = []")
  case True
  then have "teamData = []" using assms(1) by (simp add: readTeamFile_def)
  moreover have "scanLines [] (l @ [CHR 0x0A]) = ([dropCR l], False)"
    using scanLines_last_line [of l "[]"] assms(3,4) by simp
  ultimately show ?thesis
    using True by (simp add: readTeamFile_def split: sum.splits)
next
  case False
  obtain ls t where r: "scanLines [] old = (ls, t)" by (cases "scanLines [] old") auto
  from assms(1) r have t: "t = False" and td: "readTeamLines [] ls = Inr teamData"
    by (auto simp: readTeamFile_def split: sum.splits if_splits)
  have "scanLines [] (old @ l @ [CHR 0x0A]) = (ls @ [dropCR l], False)"
    using False assms(2,3,4) r t by (intro scanLines_append_line) auto
  then show ?thesis
    by (simp add: readTeamFile_def readTeamLines_append td split: sum.splits)
qed

lemma trimLeft_is_drop: "\<exists>n. trimLeft seqs s = drop n s"
proof (induction seqs s rule: trimLeft.induct)
  case (1 seqs s)
  show ?case
  proof (cases "leadingSpace seqs s = 0 \<or> s = []")
    case True
    then have "trimLeft seqs s = drop 0 s" by (simp add: trimLeft.simps [of seqs s])
    then show ?thesis by blast
  next
    case False
    then obtain n where "trimLeft seqs (drop (leadingSpace seqs s) s) = drop n (drop (leadingSpace seqs s) s)"
      using "1.IH" by blast
    then have "trimLeft seqs s = drop (n + leadingSpace seqs s) s"
      using False by (simp add: trimLeft.simps [of seqs s])
    then show ?thesis by blast
  qed
qed

lemma trimLeft_length: "length (trimLeft seqs s) \<le> length s"
  using trimLeft_is_drop [of seqs s] by auto

lemma trimLeft_fixed:
  assumes "length (trimLeft seqs s) = length s"
  shows "leadingSpace seqs s = 0 \<or> s = []"
proof (rule ccontr)
  assume h: "\<not> (leadingSpace seqs s = 0 \<or> s = [])"
  then have "trimLeft seqs s = trimLeft seqs (drop (leadingSpace seqs s) s)"
    by (simp add: trimLeft.simps [of seqs s])
  then have "length (trimLeft seqs s) \<le> length (drop (leadingSpace seqs s) s)"
    using trimLeft_length [of seqs "drop (leadingSpace seqs s) s"] by simp
  also have "\<dots> < length s" using h by simp
  finally show False using assms by simp
qed

lemma TrimSpace_fixed_ends:
  assumes "TrimSpace l = l" and "l \<noteq> []"
  shows "\<not> isAsciiSpace (hd l) \<and> \<not> isAsciiSpace (last l)"
proof -
  let ?a = "trimLeft unicodeSpaces l"
  let ?b = "trimLeft (map rev unicodeSpaces) (rev ?a)"
  have "length l = length ?b" using assms(1) by (metis TrimSpace_def length_rev)
  moreover have "length ?b \<le> length (rev ?a)" by (rule trimLeft_length)
  moreover have "length ?a \<le> length l" by (rule trimLeft_length)
  ultimately have la: "length ?a = length l" and lb: "length ?b = length (rev ?a)" by simp_all
  have a: "?a = l"
  proof -
    obtain n where n: "?a = drop n l" using trimLeft_is_drop [of unicodeSpaces l] by blast
    with la have "length l - n = length l" by simp
    then have "n = 0 \<or> l = []" by (cases l) auto
    with n show ?thesis by auto
  qed
  have ls: "leadingSpace unicodeSpaces l = 0"
    using trimLeft_fixed [OF la] assms(2) by simp
  have le: "leadingSpace (map rev unicodeSpaces) (rev l) = 0"
    using trimLeft_fixed [OF lb] assms(2) a by simp
  have h: "\<not> isAsciiSpace (hd l)"
    using ls assms(2) by (cases l) (auto simp: leadingSpace_def split: if_splits)
  have t: "\<not> isAsciiSpace (last l)"
    using le assms(2)
    by (cases "rev l") (auto simp: leadingSpace_def last_rev hd_rev split: if_splits
        dest: arg_cong [where f = hd])
  from h t show ?thesis by simp
qed

lemma SplitN2_line:
  assumes "CHR '' '' \<notin> set teamID"
  shows "SplitN2 (teamID @ '' '' @ sd) = [teamID, sd]"
proof -
  have p: "\<And>x. x \<in> set teamID \<Longrightarrow> x \<noteq> CHR '' ''"
    using assms by auto
  have d: "dropWhile (\<lambda>c. c \<noteq> CHR '' '') (teamID @ '' '' @ sd) = CHR '' '' # sd"
    using p by (simp add: dropWhile_append2)
  have t: "takeWhile (\<lambda>c. c \<noteq> CHR '' '') (teamID @ '' '' @ sd) = teamID"
    using p by (simp add: takeWhile_append2)
  show ?thesis
    unfolding SplitN2_def d t by simp
qed

lemma readTeamLines_line:
  assumes "teamID \<noteq> []" and "take 1 teamID \<noteq> ''#''" and "CHR '' '' \<notin> set teamID"
    and "TrimSpace (teamID @ '' '' @ sd) = teamID @ '' '' @ sd"
  shows "readTeamLines teamData [dropCR (teamID @ '' '' @ sd)] = Inr (AList.update teamID sd teamData)"
proof -
  define l where "l = teamID @ '' '' @ sd"
  have ne: "l \<noteq> []" by (simp add: l_def)
  have trim: "TrimSpace l = l" using assms(4) by (simp add: l_def)
  have "\<not> isAsciiSpace (last l)"
    using TrimSpace_fixed_ends [OF trim ne] by simp
  then have "last l \<noteq> CHR 0x0D" by (auto simp: isAsciiSpace_def)
  then have cr: "dropCR l = l" by (simp add: dropCR_def)
  have hash: "take 1 l \<noteq> ''#''"
    using assms(1,2) by (cases teamID) (auto simp: l_def)
  have sp: "SplitN2 l = [teamID, sd]"
    unfolding l_def by (rule SplitN2_line [OF assms(3)])
  have "readTeamLines teamData [dropCR l] = Inr (AList.update teamID sd teamData)"
    using ne hash by (simp add: cr trim sp Let_def)
  then show ?thesis by (simp only: l_def)
qed

lemma StartTeam_teams:
  "teams (snd (StartTeam g teamID sd)) k =
     (if k = teamID \<and> teams g teamID = None then Some (newTeamValue teamID sd) else teams g k)"
  "teamFileContents (snd (StartTeam g teamID sd)) = teamFileContents g"
  by (simp_all add: StartTeam_def)

lemma fold_StartTeam:
  "teams (fold (\<lambda>(teamID, sd) g. snd (StartTeam g teamID sd)) teamData g) k =
     (case teams g k of
        Some t \<Rightarrow> Some t
      | None \<Rightarrow> map_option (newTeamValue k) (map_of teamData k))
   \<and> teamFileContents (fold (\<lambda>(teamID, sd) g. snd (StartTeam g teamID sd)) teamData g)
       = teamFileContents g"
proof (induction teamData arbitrary: g)
  case Nil
  then show ?case by (simp split: option.splits)
next
  case (Cons p teamData)
  obtain teamID sd where p: "p = (teamID, sd)" by (cases p)
  define g1 where "g1 = snd (StartTeam g teamID sd)"
  have step: "fold (\<lambda>(teamID, sd) g. snd (StartTeam g teamID sd)) (p # teamData) g
              = fold (\<lambda>(teamID, sd) g. snd (StartTeam g teamID sd)) teamData g1"
    by (simp add: p g1_def)
  have t1: "teams g1 k =
     (if k = teamID \<and> teams g teamID = None then Some (newTeamValue teamID sd) else teams g k)"
    and f1: "teamFileContents g1 = teamFileContents g"
    by (simp_all add: g1_def StartTeam_teams)
  show ?case
    unfolding step using Cons.IH [of g1]
    by (auto simp: t1 f1 p split: option.splits)
qed

text \<open>
  Where the reload does give the team back. Let the id be non-empty, not start with
  \<^verbatim>\<open>#\<close> and have no space or newline, the setup data have no newline, the line
  \<^verbatim>\<open><id> <setupData>\<close> have no white space at its ends (so the setup data is not
  empty) and fewer than \<^verbatim>\<open>MaxScanTokenSize\<close> bytes; let the team file be empty or end
  with a newline, and load without error. Then \<^verbatim>\<open>NewTeam\<close> succeeds, the file with the
  new line loads to the old team data updated at the id, and the governor built from it
  holds the team with the same setup data and leaves the file as it is.
\<close>

theorem NewTeam_reload:
  assumes "teams g teamID = None"
    and "teamID \<noteq> []" and "take 1 teamID \<noteq> ''#''"
    and "CHR '' '' \<notin> set teamID" and "CHR 0x0A \<notin> set teamID" and "CHR 0x0A \<notin> set sd"
    and "TrimSpace (teamID @ '' '' @ sd) = teamID @ '' '' @ sd"
    and "length (teamID @ '' '' @ sd) < MaxScanTokenSize"
    and "teamFileText g = [] \<or> last (teamFileText g) = CHR 0x0A"
    and "readTeamFile (Some (teamFileText g)) = Inr teamData"
  shows "fst (NewTeam g FileOk teamID sd) = None
       \<and> teamFileContents (snd (NewTeam g FileOk teamID sd))
           = Some (teamFileText g @ teamID @ '' '' @ sd @ [CHR 0x0A])
       \<and> readTeamFile (teamFileContents (snd (NewTeam g FileOk teamID sd)))
           = Inr (AList.update teamID sd teamData)
       \<and> (case NewGovernor (teamFileContents (snd (NewTeam g FileOk teamID sd))) of
             Inl err \<Rightarrow> False
           | Inr g' \<Rightarrow>
               teams g' teamID = Some (newTeamValue teamID sd)
               \<and> teamFileContents g' = teamFileContents (snd (NewTeam g FileOk teamID sd)))"
proof -
  let ?l = "teamID @ '' '' @ sd"
  have reg: "NewTeam g FileOk teamID sd =
     (None, g\<lparr>teamFileContents := Some (teamFileText g @ teamID @ '' '' @ sd @ [CHR 0x0A]),
              teams := (teams g)(teamID \<mapsto> newTeamValue teamID sd)\<rparr>)"
    using assms(1,4,5,6) by (rule NewTeam_ok)
  have nl: "CHR 0x0A \<notin> set ?l" using assms(5,6) by simp
  have rd: "readTeamFile (Some (teamFileText g @ ?l @ [CHR 0x0A]))
            = Inr (AList.update teamID sd teamData)"
    using readTeamFile_append_line [OF assms(10) assms(9) nl assms(8)]
      readTeamLines_line [OF assms(2,3,4,7)] by simp
  have look: "map_of (AList.update teamID sd teamData) teamID = Some sd"
    by (simp add: update_conv')
  show ?thesis
    using rd look by (simp add: reg NewGovernor_def fold_StartTeam)
qed

theorem NewTeam_reload_witness:
  "teams emptyGovernor ''t1'' = None
   \<and> ''t1'' \<noteq> [] \<and> take 1 ''t1'' \<noteq> ''#''
   \<and> CHR '' '' \<notin> set ''t1'' \<and> CHR 0x0A \<notin> set ''t1'' \<and> CHR 0x0A \<notin> set ''s1''
   \<and> TrimSpace (''t1'' @ '' '' @ ''s1'') = ''t1'' @ '' '' @ ''s1''
   \<and> length (''t1'' @ '' '' @ ''s1'') < MaxScanTokenSize
   \<and> teamFileText emptyGovernor = []
   \<and> readTeamFile (Some (teamFileText emptyGovernor)) = Inr []
   \<and> readTeamFile (teamFileContents (snd (NewTeam emptyGovernor FileOk ''t1'' ''s1'')))
       = Inr [(''t1'', ''s1'')]"
proof -
  have a1: "teams emptyGovernor ''t1'' = None"
    and a9: "teamFileText emptyGovernor = [] \<or> last (teamFileText emptyGovernor) = CHR 0x0A"
    and a9': "teamFileText emptyGovernor = []"
    by (simp_all add: emptyGovernor_def teamFileText_def)
  have a2: "''t1'' \<noteq> []" and a3: "take 1 ''t1'' \<noteq> ''#''"
    and a4: "CHR '' '' \<notin> set ''t1''" and a5: "CHR 0x0A \<notin> set ''t1''"
    and a6: "CHR 0x0A \<notin> set ''s1''"
    by simp_all
  have a7: "TrimSpace (''t1'' @ '' '' @ ''s1'') = ''t1'' @ '' '' @ ''s1''"
    by (simp add: TrimSpace_def trimLeft.simps leadingSpace_def isAsciiSpace_def unicodeSpaces_def)
  have a8: "length (''t1'' @ '' '' @ ''s1'') < MaxScanTokenSize"
    by (simp add: MaxScanTokenSize_def)
  have a10: "readTeamFile (Some (teamFileText emptyGovernor)) = Inr []"
    by (simp add: a9' readTeamFile_def)
  have r: "readTeamFile (teamFileContents (snd (NewTeam emptyGovernor FileOk ''t1'' ''s1'')))
           = Inr (AList.update ''t1'' ''s1'' [])"
    using NewTeam_reload [OF a1 a2 a3 a4 a5 a6 a7 a8 a9 a10] by blast
  show ?thesis
    using a1 a2 a3 a4 a5 a6 a7 a8 a9' a10 r by simp
qed

section \<open>No team ever has a cancel function\<close>

text \<open>
  \<^verbatim>\<open>canceler\<close> is nil in every team of a governor that \<^verbatim>\<open>NewGovernor\<close> builds, and each
  operation of the governor keeps it so: \<^verbatim>\<open>Close\<close> panics on every team the program
  can hold.
\<close>

lemma canceler_stays_nil:
  assumes "\<And>k t. teams g k = Some t \<Longrightarrow> canceler t = None"
  shows "teams (snd (NewTeam g io teamID sd)) k = Some t \<Longrightarrow> canceler t = None"
    and "teams (snd (StartTeam g teamID sd)) k = Some t \<Longrightarrow> canceler t = None"
    and "teams (runTeamStart env g teamID) k = Some t \<Longrightarrow> canceler t = None"
    and "teams (fst (handleChatEvent g teamID res)) k = Some t \<Longrightarrow> canceler t = None"
proof -
  show "teams (snd (NewTeam g io teamID sd)) k = Some t \<Longrightarrow> canceler t = None"
    using assms
    by (auto simp: NewTeam_def appendTeamDefinition_def Let_def canceler_newTeamValue
        split: if_splits FileOutcome.splits)
  show "teams (snd (StartTeam g teamID sd)) k = Some t \<Longrightarrow> canceler t = None"
    using assms by (auto simp: StartTeam_def canceler_newTeamValue split: if_splits)
  show "teams (runTeamStart env g teamID) k = Some t \<Longrightarrow> canceler t = None"
    using assms canceler_RunStart
    by (auto simp: runTeamStart_def split: option.splits if_splits)
  show "teams (fst (handleChatEvent g teamID res)) k = Some t \<Longrightarrow> canceler t = None"
    using assms by (auto simp: handleChatEvent_def split: option.splits if_splits)
qed

lemma NewGovernor_canceler_nil:
  assumes "NewGovernor file = Inr g" and "teams g k = Some t"
  shows "canceler t = None"
proof -
  obtain teamData where g: "g = fold (\<lambda>(teamID, sd) g. snd (StartTeam g teamID sd)) teamData
                                 \<lparr>teams = Map.empty, teamFileContents = file\<rparr>"
  proof (cases "readTeamFile file")
    case (Inl err)
    with assms(1) have "g = fold (\<lambda>(teamID, sd) g. snd (StartTeam g teamID sd)) []
                                 \<lparr>teams = Map.empty, teamFileContents = file\<rparr>"
      by (auto simp: NewGovernor_def split: if_splits)
    then show ?thesis by (rule that)
  next
    case (Inr teamData)
    with assms(1) have "g = fold (\<lambda>(teamID, sd) g. snd (StartTeam g teamID sd)) teamData
                                 \<lparr>teams = Map.empty, teamFileContents = file\<rparr>"
      by (auto simp: NewGovernor_def)
    then show ?thesis by (rule that)
  qed
  have "teams g k = map_option (newTeamValue k) (map_of teamData k)"
    unfolding g using fold_StartTeam [of teamData "\<lparr>teams = Map.empty, teamFileContents = file\<rparr>" k]
    by simp
  with assms(2) show ?thesis
    by (auto simp: canceler_newTeamValue)
qed

end
